theory Spec2Isabelle
  imports Main "HOL-Library.Word" "HOL-Library.Char_ord" "HOL-Library.List_Lexorder"
    "HOL-Library.Monad_Syntax" "HOL-Library.AList" "HOL-Library.Code_Target_Numeral"
begin

unbundle bit_operations_syntax

section \<open>Tombstones of kubexit: pkg/tombstone/tombstone.go\<close>

text \<open>
  The package persists one small record per tracked process (its birth time, death time
  and exit code) as a YAML file in a shared directory, the graveyard, and watches that
  directory for changes. This theory embeds the package function by function. What the
  package calls but does not define (the operating system's files, the clock, the
  time, JSON and YAML codecs, fsnotify) is modelled in the first subsections, each as the
  executable behaviour the package relies on.
\<close>

subsection \<open>Decimal text (strconv)\<close>

definition digit_char :: "nat \<Rightarrow> char" where
  "digit_char n = ''0123456789'' ! (n mod 10)"

definition is_digit :: "char \<Rightarrow> bool" where
  "is_digit c = (48 \<le> (of_char c :: nat) \<and> (of_char c :: nat) \<le> 57)"

definition digit_val :: "char \<Rightarrow> nat" where
  "digit_val c = of_char c - 48"

text \<open>The decimal digits of a natural number, most significant first.\<close>

fun dec :: "nat \<Rightarrow> string" where
  "dec n = (if n < 10 then [digit_char n] else dec (n div 10) @ [digit_char (n mod 10)])"

declare dec.simps [simp del]

text \<open>The \<open>k\<close> low decimal digits, zero padded: the fixed-width fields of a timestamp.\<close>

fun digits_fixed :: "nat \<Rightarrow> nat \<Rightarrow> string" where
  "digits_fixed 0 n = []"
| "digits_fixed (Suc k) n = digits_fixed k (n div 10) @ [digit_char (n mod 10)]"

definition nat_of_digits :: "string \<Rightarrow> nat" where
  "nat_of_digits s = foldl (\<lambda>a c. 10 * a + digit_val c) 0 s"

definition parse_nat :: "string \<Rightarrow> nat option" where
  "parse_nat s = (if s \<noteq> [] \<and> list_all is_digit s then Some (nat_of_digits s) else None)"

text \<open>\<open>strconv.Itoa\<close> and \<open>strconv.ParseInt\<close> in base 10.\<close>

definition show_int :: "int \<Rightarrow> string" where
  "show_int i = (if i < 0 then CHR ''-'' # dec (nat (- i)) else dec (nat i))"

definition parse_int :: "string \<Rightarrow> int option" where
  "parse_int s =
     (case s of
        [] \<Rightarrow> None
      | c # r \<Rightarrow>
          if c = CHR ''-'' then map_option (\<lambda>n. - int n) (parse_nat r)
          else map_option int (parse_nat s))"

subsection \<open>Points in time (package time)\<close>

text \<open>
  A \<open>time.Time\<close> is modelled by the civil reading that its RFC 3339 text shows: the
  date, the time of day to the nanosecond, and the zone offset in minutes east of UTC.
  The monotonic clock reading and the identity of the location pointer, which Go drops
  when a time is marshalled, are not part of the model.
\<close>

record Time =
  Year :: int
  Month :: nat
  Day :: nat
  Hour :: nat
  Minute :: nat
  Second :: nat
  Nanosecond :: nat
  ZoneOffset :: int

definition isLeap :: "int \<Rightarrow> bool" where
  "isLeap y = (y mod 4 = 0 \<and> (y mod 100 \<noteq> 0 \<or> y mod 400 = 0))"

definition daysIn :: "nat \<Rightarrow> int \<Rightarrow> nat" where
  "daysIn m y =
     (if m = 2 then (if isLeap y then 29 else 28)
      else if m = 4 \<or> m = 6 \<or> m = 9 \<or> m = 11 then 30 else 31)"

text \<open>The values a \<open>time.Time\<close> can take: every field in its calendar range.\<close>

definition valid_Time :: "Time \<Rightarrow> bool" where
  "valid_Time t =
     (1 \<le> Month t \<and> Month t \<le> 12 \<and> 1 \<le> Day t \<and> Day t \<le> daysIn (Month t) (Year t) \<and>
      Hour t < 24 \<and> Minute t < 60 \<and> Second t < 60 \<and> Nanosecond t < 1000000000 \<and>
      \<bar>ZoneOffset t\<bar> < 1440)"

text \<open>
  The fraction of layout \<open>.999999999\<close>: nothing for a whole second, otherwise the nine
  digits of the nanoseconds without their trailing zeros.
\<close>

definition strip_zeros :: "string \<Rightarrow> string" where
  "strip_zeros s = rev (dropWhile (\<lambda>c. c = CHR ''0'') (rev s))"

definition format_frac :: "nat \<Rightarrow> string" where
  "format_frac ns = (if ns = 0 then [] else CHR ''.'' # strip_zeros (digits_fixed 9 ns))"

text \<open>The zone of layout \<open>Z07:00\<close>: \<open>Z\<close> for UTC, otherwise the signed offset.\<close>

definition format_zone :: "int \<Rightarrow> string" where
  "format_zone off =
     (if off = 0 then ''Z''
      else (if off < 0 then CHR ''-'' else CHR ''+'') #
           digits_fixed 2 (nat \<bar>off\<bar> div 60) @ CHR '':'' # digits_fixed 2 (nat \<bar>off\<bar> mod 60))"

text \<open>\<open>t.Format(time.RFC3339Nano)\<close>, layout \<open>2006-01-02T15:04:05.999999999Z07:00\<close>.\<close>

definition format_RFC3339Nano :: "Time \<Rightarrow> string" where
  "format_RFC3339Nano t =
     digits_fixed 4 (nat (Year t)) @ CHR ''-'' # digits_fixed 2 (Month t) @ CHR ''-'' #
     digits_fixed 2 (Day t) @ CHR ''T'' # digits_fixed 2 (Hour t) @ CHR '':'' #
     digits_fixed 2 (Minute t) @ CHR '':'' # digits_fixed 2 (Second t) @
     format_frac (Nanosecond t) @ format_zone (ZoneOffset t)"

text \<open>
  \<open>Time.MarshalJSON\<close>: the RFC 3339 text, refused for a year that does not fit four
  digits.
\<close>

definition Time_MarshalText :: "Time \<Rightarrow> string + string" where
  "Time_MarshalText t =
     (if Year t < 0 \<or> Year t \<ge> 10000
      then Inl ''Time.MarshalJSON: year outside of range [0,9999]''
      else Inr (format_RFC3339Nano t))"

text \<open>Parsing, field by field: each step consumes a prefix and hands on the rest.\<close>

definition take_digits :: "nat \<Rightarrow> string \<Rightarrow> (nat \<times> string) option" where
  "take_digits k s =
     (if k \<le> length s \<and> list_all is_digit (take k s)
      then Some (nat_of_digits (take k s), drop k s) else None)"

definition expect :: "char \<Rightarrow> string \<Rightarrow> string option" where
  "expect c s = (case s of [] \<Rightarrow> None | x # r \<Rightarrow> if x = c then Some r else None)"

definition parse_frac :: "string \<Rightarrow> (nat \<times> string) option" where
  "parse_frac s =
     (case s of
        [] \<Rightarrow> Some (0, s)
      | c # r \<Rightarrow>
          if c = CHR ''.'' then
            (let ds = takeWhile is_digit r in
             if ds = [] then None
             else Some (nat_of_digits (take 9 (ds @ replicate (9 - length ds) (CHR ''0''))),
                        dropWhile is_digit r))
          else Some (0, s))"

definition parse_zone :: "string \<Rightarrow> int option" where
  "parse_zone s =
     (case s of
        [] \<Rightarrow> None
      | c # r \<Rightarrow>
          if c = CHR ''Z'' then (if r = [] then Some 0 else None)
          else if c = CHR ''+'' \<or> c = CHR ''-'' then do {
            (h, r1) \<leftarrow> take_digits 2 r;
            r2 \<leftarrow> expect (CHR '':'') r1;
            (m, r3) \<leftarrow> take_digits 2 r2;
            (if r3 = [] \<and> h < 24 \<and> m < 60
             then Some ((if c = CHR ''-'' then - 1 else 1) * int (h * 60 + m))
             else None)
          }
          else None)"

text \<open>\<open>time.Parse(time.RFC3339, s)\<close>, which also accepts a fraction of a second.\<close>

definition parse_RFC3339 :: "string \<Rightarrow> Time option" where
  "parse_RFC3339 s = do {
     (y, s1) \<leftarrow> take_digits 4 s;
     s2 \<leftarrow> expect (CHR ''-'') s1;
     (mo, s3) \<leftarrow> take_digits 2 s2;
     s4 \<leftarrow> expect (CHR ''-'') s3;
     (d, s5) \<leftarrow> take_digits 2 s4;
     s6 \<leftarrow> expect (CHR ''T'') s5;
     (h, s7) \<leftarrow> take_digits 2 s6;
     s8 \<leftarrow> expect (CHR '':'') s7;
     (mi, s9) \<leftarrow> take_digits 2 s8;
     s10 \<leftarrow> expect (CHR '':'') s9;
     (sec, s11) \<leftarrow> take_digits 2 s10;
     (ns, s12) \<leftarrow> parse_frac s11;
     off \<leftarrow> parse_zone s12;
     (let t = \<lparr>Year = int y, Month = mo, Day = d, Hour = h, Minute = mi, Second = sec,
               Nanosecond = ns, ZoneOffset = off\<rparr>
      in if valid_Time t then Some t else None)
   }"

subsection \<open>The record\<close>

text \<open>
  Go's \<open>error\<close> values are read through their message (\<open>%v\<close>), so an error is its
  message; \<open>fmt.Errorf("...: %v", err)\<close> puts a prefix before it. Go's \<open>int\<close> is a
  64-bit two's complement integer.
\<close>

type_synonym error = string

type_synonym go_int = "64 word"

text \<open>
  The struct \<open>Tombstone\<close>. A nil pointer is \<open>None\<close>. The field \<open>fileLock\<close> guards
  \<open>Write\<close> against other goroutines writing the same struct; the calls modelled here run one
  after another on one struct, where taking and releasing the lock changes nothing.
\<close>

record Tombstone =
  Born :: "Time option"
  Died :: "Time option"
  ExitCode :: "go_int option"
  Graveyard :: string
  Name :: string

subsection \<open>Serialization (encoding/json and sigs.k8s.io/yaml)\<close>

text \<open>
  \<open>json.Marshal\<close> walks the struct's exported fields in order and follows their tags:
  \<open>omitempty\<close> leaves a nil pointer out, \<open>"-"\<close> leaves the field out always (\<open>Graveyard\<close>,
  \<open>Name\<close>), and an empty name in the tag keeps the field's own name as the key. A time is
  a JSON string, an \<open>int\<close> a JSON number.
\<close>

datatype json = JString string | JNumber int

definition time_member :: "string \<Rightarrow> Time option \<Rightarrow> error + (string \<times> json) list" where
  "time_member key v =
     (case v of
        None \<Rightarrow> Inr []
      | Some t \<Rightarrow>
         (case Time_MarshalText t of
            Inl e \<Rightarrow> Inl (''json: error calling MarshalJSON for type *time.Time: '' @ e)
          | Inr s \<Rightarrow> Inr [(key, JString s)]))"

definition int_member :: "string \<Rightarrow> go_int option \<Rightarrow> (string \<times> json) list" where
  "int_member key v = (case v of None \<Rightarrow> [] | Some c \<Rightarrow> [(key, JNumber (sint c))])"

definition Tombstone_members :: "Tombstone \<Rightarrow> error + (string \<times> json) list" where
  "Tombstone_members t =
     (case time_member ''Born'' (Born t) of
        Inl e \<Rightarrow> Inl e
      | Inr b \<Rightarrow>
         (case time_member ''Died'' (Died t) of
            Inl e \<Rightarrow> Inl e
          | Inr d \<Rightarrow> Inr (b @ d @ int_member ''ExitCode'' (ExitCode t))))"

text \<open>\<open>strings.Join\<close>.\<close>

fun join_with :: "string \<Rightarrow> string list \<Rightarrow> string" where
  "join_with sep [] = []"
| "join_with sep [x] = x"
| "join_with sep (x # y # ys) = x @ sep @ join_with sep (y # ys)"

text \<open>
  The text of a value. The only strings marshalled here are timestamps, which JSON and
  YAML both write between double quotes without any escape.
\<close>

fun scalar_text :: "json \<Rightarrow> string" where
  "scalar_text (JString s) = CHR 0x22 # s @ [CHR 0x22]"
| "scalar_text (JNumber i) = show_int i"

definition json_member_text :: "string \<times> json \<Rightarrow> string" where
  "json_member_text m = CHR 0x22 # fst m @ CHR 0x22 # CHR '':'' # scalar_text (snd m)"

definition json_Marshal :: "Tombstone \<Rightarrow> error + string" where
  "json_Marshal t =
     (case Tombstone_members t of
        Inl e \<Rightarrow> Inl e
      | Inr ms \<Rightarrow> Inr (CHR ''{'' # join_with '','' (map json_member_text ms) @ ''}''))"

text \<open>
  \<open>yaml.Marshal\<close> of sigs.k8s.io/yaml marshals to JSON first and rewrites the JSON object
  as a YAML block mapping with its keys in sorted order, one \<open>key: value\<close> line each (the
  three keys of a tombstone are already in that order); the empty object is the flow
  mapping \<open>{}\<close>.
\<close>

definition yaml_member_text :: "string \<times> json \<Rightarrow> string" where
  "yaml_member_text m = fst m @ '': '' @ scalar_text (snd m) @ [CHR 0x0A]"

definition yaml_render :: "(string \<times> json) list \<Rightarrow> string" where
  "yaml_render ms = (if ms = [] then ''{}'' @ [CHR 0x0A] else concat (map yaml_member_text ms))"

definition yaml_Marshal :: "Tombstone \<Rightarrow> error + string" where
  "yaml_Marshal t =
     (case Tombstone_members t of
        Inl e \<Rightarrow> Inl (''error marshaling into JSON: '' @ e)
      | Inr ms \<Rightarrow> Inr (yaml_render ms))"

text \<open>
  Reading YAML, for the documents a tombstone file can hold: the empty document, the flow
  mapping \<open>{}\<close>, or a block mapping of \<open>key: value\<close> lines whose values are double-quoted
  or plain scalars. A plain scalar that reads as a decimal integer is a number. Any other
  text is reported as a syntax error.
\<close>

fun split_on :: "char \<Rightarrow> string \<Rightarrow> string list" where
  "split_on c [] = [[]]"
| "split_on c (x # xs) =
     (if x = c then [] # split_on c xs
      else (case split_on c xs of [] \<Rightarrow> [[x]] | p # ps \<Rightarrow> (x # p) # ps))"

definition parse_scalar :: "string \<Rightarrow> json" where
  "parse_scalar v =
     (if 2 \<le> length v \<and> hd v = CHR 0x22 \<and> last v = CHR 0x22 then JString (butlast (tl v))
      else (case parse_int v of Some i \<Rightarrow> JNumber i | None \<Rightarrow> JString v))"

definition parse_line :: "string \<Rightarrow> (string \<times> json) option" where
  "parse_line l =
     (let k = takeWhile (\<lambda>c. c \<noteq> CHR '':'') l; r = dropWhile (\<lambda>c. c \<noteq> CHR '':'') l
      in if k = [] \<or> take 2 r \<noteq> '': '' then None else Some (k, parse_scalar (drop 2 r)))"

fun parse_lines :: "string list \<Rightarrow> (string \<times> json) list option" where
  "parse_lines [] = Some []"
| "parse_lines (l # ls) =
     (if l = [] then parse_lines ls
      else (case parse_line l of
              None \<Rightarrow> None
            | Some m \<Rightarrow> map_option ((#) m) (parse_lines ls)))"

definition yaml_parse :: "string \<Rightarrow> error + (string \<times> json) list" where
  "yaml_parse s =
     (if s = ''{}'' @ [CHR 0x0A] then Inr []
      else (case parse_lines (split_on (CHR 0x0A) s) of
              None \<Rightarrow> Inl ''yaml: could not find expected key and value''
            | Some ms \<Rightarrow> Inr ms))"

text \<open>
  \<open>json.Unmarshal\<close> into the struct: a member whose key names a field sets it, any other
  member is skipped (so are \<open>Graveyard\<close> and \<open>Name\<close>, which the tag \<open>"-"\<close> hides), and a
  value of the wrong kind is an error.
\<close>

definition decode_time :: "json \<Rightarrow> error + Time" where
  "decode_time v =
     (case v of
        JString s \<Rightarrow>
         (case parse_RFC3339 s of
            None \<Rightarrow> Inl (''parsing time '' @ s @ '': cannot parse as RFC 3339'')
          | Some tm \<Rightarrow> Inr tm)
      | JNumber i \<Rightarrow> Inl ''Time.UnmarshalJSON: input is not a JSON string'')"

definition decode_int :: "json \<Rightarrow> error + go_int" where
  "decode_int v =
     (case v of
        JNumber i \<Rightarrow>
         (if - (2 ^ 63) \<le> i \<and> i < 2 ^ 63 then Inr (word_of_int i)
          else Inl ''json: cannot unmarshal number into Go struct field Tombstone.ExitCode of type int'')
      | JString s \<Rightarrow>
          Inl ''json: cannot unmarshal string into Go struct field Tombstone.ExitCode of type int'')"

fun decode_members :: "(string \<times> json) list \<Rightarrow> Tombstone \<Rightarrow> error + Tombstone" where
  "decode_members [] t = Inr t"
| "decode_members (m # ms) t =
     (if fst m = ''Born'' then
        (case decode_time (snd m) of
           Inl e \<Rightarrow> Inl e
         | Inr tm \<Rightarrow> decode_members ms (t\<lparr>Born := Some tm\<rparr>))
      else if fst m = ''Died'' then
        (case decode_time (snd m) of
           Inl e \<Rightarrow> Inl e
         | Inr tm \<Rightarrow> decode_members ms (t\<lparr>Died := Some tm\<rparr>))
      else if fst m = ''ExitCode'' then
        (case decode_int (snd m) of
           Inl e \<Rightarrow> Inl e
         | Inr c \<Rightarrow> decode_members ms (t\<lparr>ExitCode := Some c\<rparr>))
      else decode_members ms t)"

definition yaml_Unmarshal :: "string \<Rightarrow> Tombstone \<Rightarrow> error + Tombstone" where
  "yaml_Unmarshal bytes t =
     (case yaml_parse bytes of
        Inl e \<Rightarrow> Inl (''error converting YAML to JSON: '' @ e)
      | Inr ms \<Rightarrow>
         (case decode_members ms t of
            Inl e \<Rightarrow> Inl (''error unmarshaling JSON: '' @ e)
          | Inr t' \<Rightarrow> Inr t'))"

subsection \<open>Paths (path/filepath)\<close>

text \<open>
  \<open>filepath.Clean\<close>: runs of separators become one, \<open>.\<close> elements disappear, an inner
  \<open>..\<close> removes the element before it, a \<open>..\<close> at the root is dropped, and the empty
  path is \<open>.\<close>. The elements are cleaned on a stack, last element first.
\<close>

fun clean_elems :: "bool \<Rightarrow> string list \<Rightarrow> string list \<Rightarrow> string list" where
  "clean_elems rooted st [] = rev st"
| "clean_elems rooted st (e # es) =
     (if e = [] \<or> e = ''.'' then clean_elems rooted st es
      else if e = ''..'' then
        (case st of
           [] \<Rightarrow> if rooted then clean_elems rooted [] es else clean_elems rooted [e] es
         | prev # st' \<Rightarrow>
             if prev = ''..'' then clean_elems rooted (e # st) es
             else clean_elems rooted st' es)
      else clean_elems rooted (e # st) es)"

definition filepath_Clean :: "string \<Rightarrow> string" where
  "filepath_Clean p =
     (let rooted = (take 1 p = ''/'');
          es = clean_elems rooted [] (split_on (CHR ''/'') p)
      in if rooted then CHR ''/'' # join_with ''/'' es
         else if es = [] then ''.'' else join_with ''/'' es)"

text \<open>
  \<open>filepath.Join\<close> of two elements: leading empty elements are ignored, the rest is
  joined with a separator and cleaned; the join of empty elements is the empty string.
\<close>

definition filepath_Join :: "string \<Rightarrow> string \<Rightarrow> string" where
  "filepath_Join a b =
     (if a \<noteq> [] then filepath_Clean (a @ ''/'' @ b)
      else if b \<noteq> [] then filepath_Clean b
      else [])"

text \<open>\<open>filepath.Dir\<close> and \<open>filepath.Base\<close> of a cleaned path.\<close>

definition filepath_Dir :: "string \<Rightarrow> string" where
  "filepath_Dir p = filepath_Clean (rev (dropWhile (\<lambda>c. c \<noteq> CHR ''/'') (rev p)))"

definition filepath_Base :: "string \<Rightarrow> string" where
  "filepath_Base p = rev (takeWhile (\<lambda>c. c \<noteq> CHR ''/'') (rev p))"

subsection \<open>The file system, the disk and the log (os, io/ioutil, log)\<close>

text \<open>
  The world outside the package: the nodes of the file system by cleaned path, the
  bytes the disk can still take, and the lines logged so far. The root and the working
  directory always exist. Each primitive cleans its path as the kernel resolves it, and
  fails where the system call fails: a missing parent, a file where a directory is
  needed, a directory where a file is needed, a full disk. The logger of the context
  (\<open>log.G(ctx)\<close>) and the logger of the package (\<open>log.Printf\<close>) write to the one log;
  the context itself carries nothing else that the package reads but its cancellation,
  which is an input of the goroutine below.
\<close>

datatype node = Directory | Regular string

record world =
  nodes :: "(string \<times> node) list"
  free :: nat
  logged :: "string list"

definition lookup :: "world \<Rightarrow> string \<Rightarrow> node option" where
  "lookup w p = map_of (nodes w) p"

definition store :: "string \<Rightarrow> node \<Rightarrow> world \<Rightarrow> world" where
  "store p n w = w\<lparr>nodes := AList.update p n (nodes w)\<rparr>"

definition is_dir :: "world \<Rightarrow> string \<Rightarrow> bool" where
  "is_dir w p = (p = ''/'' \<or> p = ''.'' \<or> lookup w p = Some Directory)"

definition log_Printf :: "string \<Rightarrow> world \<Rightarrow> world" where
  "log_Printf line w = w\<lparr>logged := logged w @ [line]\<rparr>"

text \<open>The directories on the way to a cleaned path, outermost first, the path itself last.\<close>

definition dir_chain :: "string \<Rightarrow> string list" where
  "dir_chain p =
     (let es = filter (\<lambda>e. e \<noteq> []) (split_on (CHR ''/'') p)
      in if p = ''/'' \<or> p = ''.'' then []
         else map (\<lambda>k. (if take 1 p = ''/'' then ''/'' else []) @ join_with ''/'' (take k es))
                  [1 ..< Suc (length es)])"

fun mkdir_each :: "string list \<Rightarrow> world \<Rightarrow> error option \<times> world" where
  "mkdir_each [] w = (None, w)"
| "mkdir_each (d # ds) w =
     (case lookup w d of
        Some (Regular c) \<Rightarrow> (Some (''mkdir '' @ d @ '': not a directory''), w)
      | Some Directory \<Rightarrow> mkdir_each ds w
      | None \<Rightarrow> mkdir_each ds (store d Directory w))"

text \<open>\<open>os.MkdirAll(path, os.ModePerm)\<close>: creates the directory and every missing parent.\<close>

definition os_MkdirAll :: "string \<Rightarrow> world \<Rightarrow> error option \<times> world" where
  "os_MkdirAll p w =
     (if p = [] then (Some ''mkdir : no such file or directory'', w)
      else mkdir_each (dir_chain (filepath_Clean p)) w)"

text \<open>
  \<open>os.Create(name)\<close>: creates the file or truncates it, and returns the open file, here the
  cleaned path it stands for.
\<close>

definition os_Create :: "string \<Rightarrow> world \<Rightarrow> (error + string) \<times> world" where
  "os_Create p w =
     (let q = filepath_Clean p in
      if p = [] then (Inl ''open : no such file or directory'', w)
      else if is_dir w q then (Inl (''open '' @ q @ '': is a directory''), w)
      else if \<not> is_dir w (filepath_Dir q)
        then (Inl (''open '' @ q @ '': no such file or directory''), w)
      else (Inr q, store q (Regular []) w))"

text \<open>
  \<open>file.Write(b)\<close>: appends as many bytes as the disk takes and returns their number, with
  an error when they are not all of \<open>b\<close>.
\<close>

definition file_Write :: "string \<Rightarrow> string \<Rightarrow> world \<Rightarrow> nat \<times> error option \<times> world" where
  "file_Write f b w =
     (case lookup w f of
        Some (Regular c) \<Rightarrow>
          (let n = min (length b) (free w)
           in (n,
               if n < length b then Some (''write '' @ f @ '': no space left on device'') else None,
               store f (Regular (c @ take n b)) (w\<lparr>free := free w - n\<rparr>)))
      | Some Directory \<Rightarrow> (0, Some (''write '' @ f @ '': is a directory''), w)
      | None \<Rightarrow> (0, Some (''write '' @ f @ '': bad file descriptor''), w))"

text \<open>\<open>ioutil.ReadFile(filename)\<close>.\<close>

definition ioutil_ReadFile :: "string \<Rightarrow> world \<Rightarrow> error + string" where
  "ioutil_ReadFile p w =
     (let q = filepath_Clean p in
      if p = [] then Inl ''open : no such file or directory''
      else if is_dir w q then Inl (''read '' @ q @ '': is a directory'')
      else (case lookup w q of
              Some (Regular c) \<Rightarrow> Inr c
            | _ \<Rightarrow> Inl (''open '' @ q @ '': no such file or directory'')))"

text \<open>\<open>ioutil.ReadDir(dirname)\<close>: the names of the directory's entries, sorted.\<close>

definition entries :: "world \<Rightarrow> string \<Rightarrow> string list" where
  "entries w q =
     remdups (map filepath_Base (filter (\<lambda>k. k \<noteq> q \<and> filepath_Dir k = q) (map fst (nodes w))))"

definition ioutil_ReadDir :: "string \<Rightarrow> world \<Rightarrow> error + string list" where
  "ioutil_ReadDir p w =
     (let q = filepath_Clean p in
      if p = [] then Inl ''open : no such file or directory''
      else if is_dir w q then Inr (sort (entries w q))
      else (case lookup w q of
              Some (Regular c) \<Rightarrow> Inl (''readdirent '' @ q @ '': not a directory'')
            | _ \<Rightarrow> Inl (''open '' @ q @ '': no such file or directory'')))"

subsection \<open>Tombstone files: Path, Write, RecordBirth, RecordDeath, String, Read\<close>

definition Path :: "Tombstone \<Rightarrow> string" where
  "Path t = filepath_Join (Graveyard t) (Name t)"

text \<open>
  \<open>Write\<close>: make the graveyard, create or truncate the file, marshal, write. The three
  checked failures return their error; the result of \<open>file.Write\<close> (the number of bytes and
  its error) is dropped, and \<open>nil\<close> is returned after it. The deferred \<open>file.Close()\<close> and
  \<open>fileLock.Unlock()\<close> change nothing that the world records.
\<close>

definition Write :: "Tombstone \<Rightarrow> world \<Rightarrow> error option \<times> world" where
  "Write t w =
     (case os_MkdirAll (Graveyard t) w of
        (Some err, w1) \<Rightarrow> (Some err, w1)
      | (None, w1) \<Rightarrow>
         (case os_Create (Path t) w1 of
            (Inl err, w2) \<Rightarrow> (Some (''failed to create tombstone file: '' @ err), w2)
          | (Inr file, w2) \<Rightarrow>
             (case yaml_Marshal t of
                Inl err \<Rightarrow> (Some (''failed to marshal tombstone yaml: '' @ err), w2)
              | Inr pretty \<Rightarrow>
                 (case file_Write file pretty w2 of
                    (n, werr, w3) \<Rightarrow> (None, w3)))))"

text \<open>
  \<open>RecordBirth\<close> and \<open>RecordDeath\<close> take the reading of \<open>time.Now()\<close> as \<open>now\<close>. They
  change the struct behind the pointer, so they return it next to the error.
\<close>

definition RecordBirth :: "Time \<Rightarrow> Tombstone \<Rightarrow> world \<Rightarrow> error option \<times> Tombstone \<times> world" where
  "RecordBirth now t w =
     (let born = now;
          t1 = t\<lparr>Born := Some born\<rparr>;
          w1 = log_Printf (''Creating tombstone: '' @ Path t1 @ [CHR 0x0A]) w
      in case Write t1 w1 of
           (Some err, w2) \<Rightarrow> (Some (''failed to create tombstone: '' @ err), t1, w2)
         | (None, w2) \<Rightarrow> (None, t1, w2))"

definition RecordDeath ::
    "Time \<Rightarrow> go_int \<Rightarrow> Tombstone \<Rightarrow> world \<Rightarrow> error option \<times> Tombstone \<times> world" where
  "RecordDeath now exitCode t w =
     (let code = exitCode;
          died = now;
          t1 = t\<lparr>Died := Some died, ExitCode := Some code\<rparr>;
          w1 = log_Printf (''Updating tombstone: '' @ Path t1 @ [CHR 0x0A]) w
      in case Write t1 w1 of
           (Some err, w2) \<Rightarrow> (Some (''failed to update tombstone: '' @ err), t1, w2)
         | (None, w2) \<Rightarrow> (None, t1, w2))"

definition String :: "Tombstone \<Rightarrow> world \<Rightarrow> string \<times> world" where
  "String t w =
     (case json_Marshal t of
        Inl err \<Rightarrow>
          (''{}'',
           log_Printf (''Error: failed to marshal tombstone as json: '' @ err @ [CHR 0x0A]) w)
      | Inr inline \<Rightarrow> (inline, w))"

definition Read :: "string \<Rightarrow> string \<Rightarrow> world \<Rightarrow> error + Tombstone" where
  "Read graveyard name w =
     (let t = \<lparr>Born = None, Died = None, ExitCode = None, Graveyard = graveyard, Name = name\<rparr>
      in case ioutil_ReadFile (Path t) w of
           Inl err \<Rightarrow> Inl (''failed to read tombstone file: '' @ err)
         | Inr bytes \<Rightarrow>
            (case yaml_Unmarshal bytes t of
               Inl err \<Rightarrow> Inl (''failed to unmarshal tombstone yaml: '' @ err)
             | Inr t' \<Rightarrow> Inr t'))"

subsection \<open>Events and handlers (fsnotify)\<close>

text \<open>
  \<open>fsnotify.Op\<close> is a \<open>uint32\<close> bit set (\<open>Create = 1 << iota\<close>, then \<open>Write\<close>, \<open>Remove\<close>,
  \<open>Rename\<close>, \<open>Chmod\<close>); \<open>fsnotify.Event\<close> is a path and its operations. The two calls into
  fsnotify that can fail, \<open>fsnotify.NewWatcher()\<close> and \<open>watcher.Add(path)\<close>, are given by
  their results.
\<close>

type_synonym Op = "32 word"

definition fsnotify_Create :: Op where "fsnotify_Create = 1"
definition fsnotify_Write :: Op where "fsnotify_Write = 2"
definition fsnotify_Remove :: Op where "fsnotify_Remove = 4"
definition fsnotify_Rename :: Op where "fsnotify_Rename = 8"
definition fsnotify_Chmod :: Op where "fsnotify_Chmod = 16"

record Event =
  Event_Name :: string
  Op :: Op

record fsnotify =
  NewWatcher :: "error option"
  Add :: "string \<Rightarrow> error option"

text \<open>
  An \<open>EventHandler\<close> is any function of the event that may read and change the world and
  returns an error or \<open>nil\<close>. What a handler is called with is recorded, in order, next to
  the world, with the loop that made the call: the loop over the existing files in
  \<open>Watch\<close> itself (\<open>Bootstrap\<close>) or the \<open>select\<close> loop of the goroutine (\<open>Live\<close>).
\<close>

type_synonym EventHandler = "Event \<Rightarrow> world \<Rightarrow> error option \<times> world"

datatype origin = Bootstrap | Live

type_synonym wstate = "(origin \<times> Event) list \<times> world"

definition invoke :: "EventHandler \<Rightarrow> origin \<Rightarrow> Event \<Rightarrow> wstate \<Rightarrow> error option \<times> wstate" where
  "invoke eventHandler who event s =
     (case eventHandler event (snd s) of (r, w') \<Rightarrow> (r, (fst s @ [(who, event)], w')))"

definition logging :: "string \<Rightarrow> wstate \<Rightarrow> wstate" where
  "logging line s = (fst s, log_Printf line (snd s))"

definition LoggingEventHandler :: EventHandler where
  "LoggingEventHandler event w =
     (let w1 = (if Op event AND fsnotify_Create = fsnotify_Create
                then log_Printf (''Tombstone Watch: file created: '' @ Event_Name event @ [CHR 0x0A]) w
                else w);
          w2 = (if Op event AND fsnotify_Remove = fsnotify_Remove
                then log_Printf (''Tombstone Watch: file removed: '' @ Event_Name event @ [CHR 0x0A]) w1
                else w1);
          w3 = (if Op event AND fsnotify_Write = fsnotify_Write
                then log_Printf (''Tombstone Watch: file modified: '' @ Event_Name event @ [CHR 0x0A]) w2
                else w2);
          w4 = (if Op event AND fsnotify_Rename = fsnotify_Rename
                then log_Printf (''Tombstone Watch: file renamed: '' @ Event_Name event @ [CHR 0x0A]) w3
                else w3);
          w5 = (if Op event AND fsnotify_Chmod = fsnotify_Chmod
                then log_Printf (''Tombstone Watch: file chmoded: '' @ Event_Name event @ [CHR 0x0A]) w4
                else w4)
      in (None, w5))"

subsection \<open>Watch\<close>

text \<open>
  The goroutine that \<open>Watch\<close> starts: a \<open>select\<close> loop over the context, the
  notifications and the errors of the watcher. Which case \<open>select\<close> takes in each round is
  the input (\<open>None\<close>: the channel is closed); the result says whether the loop is still
  running when the input is used up. A handler's error is logged and the loop goes on.
\<close>

datatype ready = Done | Notification "Event option" | NotifyError "error option"

fun worker :: "EventHandler \<Rightarrow> string \<Rightarrow> ready list \<Rightarrow> wstate \<Rightarrow> bool \<times> wstate" where
  "worker eventHandler graveyard [] s = (True, s)"
| "worker eventHandler graveyard (r # rs) s =
     (case r of
        Done \<Rightarrow> (False, logging (''Tombstone Watch('' @ graveyard @ ''): done'' @ [CHR 0x0A]) s)
      | Notification None \<Rightarrow> (False, s)
      | Notification (Some event) \<Rightarrow>
         (case invoke eventHandler Live event s of
            (Some err, s') \<Rightarrow>
              worker eventHandler graveyard rs
                (logging (''Tombstone Watch('' @ graveyard @
                          ''): error handling file system event: '' @ err @ [CHR 0x0A]) s')
          | (None, s') \<Rightarrow> worker eventHandler graveyard rs s')
      | NotifyError None \<Rightarrow> (False, s)
      | NotifyError (Some err) \<Rightarrow>
          worker eventHandler graveyard rs
            (logging (''Tombstone Watch('' @ graveyard @ ''): error from fsnotify: '' @ err @
                      [CHR 0x0A]) s))"

text \<open>
  The loop of \<open>Watch\<close> over the files that \<open>ioutil.ReadDir\<close> listed: a create event for
  each, and the handler's first error ends the loop and is returned.
\<close>

definition bootstrap_event :: "string \<Rightarrow> string \<Rightarrow> Event" where
  "bootstrap_event graveyard f = \<lparr>Event_Name = filepath_Join graveyard f, Op = fsnotify_Create\<rparr>"

fun bootstrap :: "EventHandler \<Rightarrow> string \<Rightarrow> string list \<Rightarrow> wstate \<Rightarrow> error option \<times> wstate" where
  "bootstrap eventHandler graveyard [] s = (None, s)"
| "bootstrap eventHandler graveyard (f # files) s =
     (let event = bootstrap_event graveyard f
      in case invoke eventHandler Bootstrap event s of
           (Some err, s') \<Rightarrow> (Some (''failed handling existing tombstone: '' @ err), s')
         | (None, s') \<Rightarrow> bootstrap eventHandler graveyard files s')"

text \<open>
  \<open>Watch\<close> as its caller runs it: the goroutine is started after the watcher is made and
  before the graveyard is added to it; the listing and the loop over it run in \<open>Watch\<close>
  itself, before it returns.
\<close>

definition Watch :: "fsnotify \<Rightarrow> string \<Rightarrow> EventHandler \<Rightarrow> wstate \<Rightarrow> error option \<times> wstate" where
  "Watch fsn graveyard eventHandler s =
     (case NewWatcher fsn of
        Some err \<Rightarrow> (Some (''failed to create watcher: '' @ err), s)
      | None \<Rightarrow>
         (case Add fsn graveyard of
            Some err \<Rightarrow> (Some (''failed to add watcher: '' @ err), s)
          | None \<Rightarrow>
             (case ioutil_ReadDir graveyard (snd s) of
                Inl err \<Rightarrow> (Some (''failed to read graveyard dir: '' @ err), s)
              | Inr files \<Rightarrow> bootstrap eventHandler graveyard files s)))"

text \<open>
  \<open>Watch\<close> and its goroutine together, one statement at a time. The caller of \<open>Watch\<close> is
  at one of the statements of \<open>Watch\<close> or has its result; the goroutine is not yet
  started, in its \<open>select\<close>, or has returned. Between their steps the notification
  subsystem may queue an event or an error for a subscribed watcher, the context may be
  cancelled, and other processes may change the file system.
\<close>

datatype caller_pc = AtNewWatcher | AtAdd | AtReadDir | AtLoop "string list" | Returned "error option"

datatype worker_pc = Unstarted | Selecting | Exited

record sys =
  caller :: caller_pc
  goroutine :: worker_pc
  subscribed :: bool
  cancelled :: bool
  Events :: "Event list"
  Errors :: "error list"
  listing :: "string list option"
  st :: wstate

definition init :: "world \<Rightarrow> sys" where
  "init w = \<lparr>caller = AtNewWatcher, goroutine = Unstarted, subscribed = False, cancelled = False,
             Events = [], Errors = [], listing = None, st = ([], w)\<rparr>"

inductive step :: "fsnotify \<Rightarrow> string \<Rightarrow> EventHandler \<Rightarrow> sys \<Rightarrow> sys \<Rightarrow> bool"
  for fsn :: fsnotify and graveyard :: string and eventHandler :: EventHandler where
  new_watcher_failed:
    "caller s = AtNewWatcher \<Longrightarrow> NewWatcher fsn = Some err \<Longrightarrow>
     step fsn graveyard eventHandler s
       (s\<lparr>caller := Returned (Some (''failed to create watcher: '' @ err))\<rparr>)"
| go_worker:
    "caller s = AtNewWatcher \<Longrightarrow> NewWatcher fsn = None \<Longrightarrow>
     step fsn graveyard eventHandler s (s\<lparr>caller := AtAdd, goroutine := Selecting\<rparr>)"
| add_failed:
    "caller s = AtAdd \<Longrightarrow> Add fsn graveyard = Some err \<Longrightarrow>
     step fsn graveyard eventHandler s
       (s\<lparr>caller := Returned (Some (''failed to add watcher: '' @ err))\<rparr>)"
| added:
    "caller s = AtAdd \<Longrightarrow> Add fsn graveyard = None \<Longrightarrow>
     step fsn graveyard eventHandler s (s\<lparr>caller := AtReadDir, subscribed := True\<rparr>)"
| read_dir_failed:
    "caller s = AtReadDir \<Longrightarrow> ioutil_ReadDir graveyard (snd (st s)) = Inl err \<Longrightarrow>
     step fsn graveyard eventHandler s
       (s\<lparr>caller := Returned (Some (''failed to read graveyard dir: '' @ err))\<rparr>)"
| read_dir:
    "caller s = AtReadDir \<Longrightarrow> ioutil_ReadDir graveyard (snd (st s)) = Inr files \<Longrightarrow>
     step fsn graveyard eventHandler s (s\<lparr>caller := AtLoop files, listing := Some files\<rparr>)"
| loop_handled:
    "caller s = AtLoop (f # files) \<Longrightarrow>
     invoke eventHandler Bootstrap (bootstrap_event graveyard f) (st s) = (None, s') \<Longrightarrow>
     step fsn graveyard eventHandler s (s\<lparr>caller := AtLoop files, st := s'\<rparr>)"
| loop_failed:
    "caller s = AtLoop (f # files) \<Longrightarrow>
     invoke eventHandler Bootstrap (bootstrap_event graveyard f) (st s) = (Some err, s') \<Longrightarrow>
     step fsn graveyard eventHandler s
       (s\<lparr>caller := Returned (Some (''failed handling existing tombstone: '' @ err)), st := s'\<rparr>)"
| loop_done:
    "caller s = AtLoop [] \<Longrightarrow>
     step fsn graveyard eventHandler s (s\<lparr>caller := Returned None\<rparr>)"
| select_done:
    "goroutine s = Selecting \<Longrightarrow> cancelled s \<Longrightarrow>
     worker eventHandler graveyard [Done] (st s) = (b, s') \<Longrightarrow>
     step fsn graveyard eventHandler s (s\<lparr>goroutine := Exited, st := s'\<rparr>)"
| select_event:
    "goroutine s = Selecting \<Longrightarrow> Events s = event # rest \<Longrightarrow>
     worker eventHandler graveyard [Notification (Some event)] (st s) = (b, s') \<Longrightarrow>
     step fsn graveyard eventHandler s (s\<lparr>Events := rest, st := s'\<rparr>)"
| select_error:
    "goroutine s = Selecting \<Longrightarrow> Errors s = err # rest \<Longrightarrow>
     worker eventHandler graveyard [NotifyError (Some err)] (st s) = (b, s') \<Longrightarrow>
     step fsn graveyard eventHandler s (s\<lparr>Errors := rest, st := s'\<rparr>)"
| notify:
    "subscribed s \<Longrightarrow> goroutine s \<noteq> Exited \<Longrightarrow>
     step fsn graveyard eventHandler s (s\<lparr>Events := Events s @ [event]\<rparr>)"
| notify_error:
    "subscribed s \<Longrightarrow> goroutine s \<noteq> Exited \<Longrightarrow>
     step fsn graveyard eventHandler s (s\<lparr>Errors := Errors s @ [err]\<rparr>)"
| cancel:
    "step fsn graveyard eventHandler s (s\<lparr>cancelled := True\<rparr>)"
| others:
    "step fsn graveyard eventHandler s (s\<lparr>st := (fst (st s), w')\<rparr>)"

definition reachable :: "fsnotify \<Rightarrow> string \<Rightarrow> EventHandler \<Rightarrow> world \<Rightarrow> sys \<Rightarrow> bool" where
  "reachable fsn graveyard eventHandler w s = (step fsn graveyard eventHandler)\<^sup>*\<^sup>* (init w) s"

definition calls_of :: "origin \<Rightarrow> sys \<Rightarrow> Event list" where
  "calls_of who s = map snd (filter (\<lambda>c. fst c = who) (fst (st s)))"

text \<open>
  What holds at every step of \<open>Watch\<close> and its goroutine together: where the caller is
  determines whether the goroutine has been started and the graveyard subscribed, and
  how far the loop over the listing has come.
\<close>

definition watch_inv :: "string \<Rightarrow> sys \<Rightarrow> bool" where
  "watch_inv graveyard s =
     ((\<forall>files. listing s = Some files \<longrightarrow> (\<exists>w. ioutil_ReadDir graveyard w = Inr files)) \<and>
      (subscribed s \<longrightarrow> goroutine s \<noteq> Unstarted) \<and>
      (Events s \<noteq> [] \<or> calls_of Live s \<noteq> [] \<longrightarrow> subscribed s) \<and>
      (case caller s of
         AtNewWatcher \<Rightarrow>
           goroutine s = Unstarted \<and> \<not> subscribed s \<and> listing s = None \<and>
           calls_of Bootstrap s = []
       | AtAdd \<Rightarrow>
           goroutine s \<noteq> Unstarted \<and> \<not> subscribed s \<and> listing s = None \<and>
           calls_of Bootstrap s = []
       | AtReadDir \<Rightarrow>
           goroutine s \<noteq> Unstarted \<and> subscribed s \<and> listing s = None \<and>
           calls_of Bootstrap s = []
       | AtLoop rest \<Rightarrow>
           goroutine s \<noteq> Unstarted \<and> subscribed s \<and>
           (\<exists>seen. listing s = Some (seen @ rest) \<and>
              calls_of Bootstrap s = map (bootstrap_event graveyard) seen)
       | Returned r \<Rightarrow>
          (case r of
             None \<Rightarrow>
               goroutine s \<noteq> Unstarted \<and> subscribed s \<and>
               (\<exists>files. listing s = Some files \<and>
                  calls_of Bootstrap s = map (bootstrap_event graveyard) files)
           | Some e \<Rightarrow>
               (listing s = None \<and> calls_of Bootstrap s = []) \<or>
               (goroutine s \<noteq> Unstarted \<and> subscribed s \<and>
                (\<exists>seen rest. listing s = Some (seen @ rest) \<and>
                   calls_of Bootstrap s = map (bootstrap_event graveyard) seen)))))"

subsection \<open>Concrete inputs\<close>

text \<open>
  A point in time, a later one, a record for the process \<open>app\<close> in the graveyard \<open>/g\<close>, and
  a world with an empty file system and room for a thousand bytes.
\<close>

definition morning :: Time where
  "morning = \<lparr>Year = 2020, Month = 4, Day = 4, Hour = 20, Minute = 15, Second = 27,
              Nanosecond = 435375900, ZoneOffset = - 420\<rparr>"

definition evening :: Time where
  "evening = \<lparr>Year = 2020, Month = 4, Day = 4, Hour = 23, Minute = 59, Second = 59,
              Nanosecond = 0, ZoneOffset = 0\<rparr>"

definition app :: Tombstone where
  "app = \<lparr>Born = None, Died = None, ExitCode = None, Graveyard = ''/g'', Name = ''app''\<rparr>"

definition disk :: world where
  "disk = \<lparr>nodes = [], free = 1000, logged = []\<rparr>"

text \<open>A world where the tombstone of \<open>app\<close> names another graveyard and another name.\<close>

definition impostor :: world where
  "impostor = \<lparr>nodes = [(''/g'', Directory),
                         (''/g/app'', Regular (''Graveyard: /elsewhere'' @ [CHR 0x0A] @
                                               ''Name: other'' @ [CHR 0x0A]))],
                free = 1000, logged = []\<rparr>"

text \<open>A world where the graveyard's path is taken by a regular file.\<close>

definition blocked :: world where
  "blocked = \<lparr>nodes = [(''/g'', Regular [])], free = 1000, logged = []\<rparr>"

text \<open>A time whose year does not fit four digits.\<close>

definition far_future :: Time where
  "far_future = \<lparr>Year = 10000, Month = 1, Day = 1, Hour = 0, Minute = 0, Second = 0,
                 Nanosecond = 0, ZoneOffset = 0\<rparr>"

text \<open>A world where the tombstone of \<open>app\<close> holds a time that is none.\<close>

definition garbled :: world where
  "garbled = \<lparr>nodes = [(''/g'', Directory), (''/g/app'', Regular ''Born: yesterday'')],
               free = 1000, logged = []\<rparr>"

text \<open>An empty file system on a full disk.\<close>

definition full :: world where
  "full = \<lparr>nodes = [], free = 0, logged = []\<rparr>"

text \<open>An empty file system on a disk with room for ten more bytes.\<close>

definition nearly_full :: world where
  "nearly_full = \<lparr>nodes = [], free = 10, logged = []\<rparr>"

text \<open>
  For \<open>Watch\<close>: an fsnotify whose calls succeed, a handler that always fails, a handler that
  fails on the tombstone \<open>/g/a\<close> only, and a graveyard that holds the files \<open>a\<close> and \<open>b\<close>.
\<close>

definition quiet :: fsnotify where
  "quiet = \<lparr>NewWatcher = None, Add = (\<lambda>p. None)\<rparr>"

definition failing :: EventHandler where
  "failing event w = (Some ''boom'', w)"

definition picky :: EventHandler where
  "picky event w = (if Event_Name event = ''/g/a'' then (Some ''unreadable'', w) else (None, w))"

definition two_files :: world where
  "two_files = \<lparr>nodes = [(''/g'', Directory), (''/g/b'', Regular []), (''/g/a'', Regular [])],
                 free = 1000, logged = []\<rparr>"

text \<open>
  For \<open>Watch\<close> with its goroutine: a graveyard that holds the file \<open>b\<close>, and two states of
  the system in which \<open>Watch\<close> has returned \<open>nil\<close>. In \<open>settled\<close> the handler has seen the
  create event of the bootstrap only. In \<open>raced\<close> it has first seen a notification that
  \<open>b\<close> was written, from the goroutine, and then the create event of the bootstrap.
\<close>

definition only_b :: world where
  "only_b = \<lparr>nodes = [(''/g'', Directory), (''/g/b'', Regular [])], free = 1000, logged = []\<rparr>"

definition settled :: sys where
  "settled = \<lparr>caller = Returned None, goroutine = Selecting, subscribed = True,
               cancelled = False, Events = [], Errors = [], listing = Some [''b''],
               st = ([(Bootstrap, \<lparr>Event_Name = ''/g/b'', Op = fsnotify_Create\<rparr>)], only_b)\<rparr>"

definition raced :: sys where
  "raced = \<lparr>caller = Returned None, goroutine = Selecting, subscribed = True,
             cancelled = False, Events = [], Errors = [], listing = Some [''b''],
             st = ([(Live, \<lparr>Event_Name = ''/g/b'', Op = fsnotify_Write\<rparr>),
                    (Bootstrap, \<lparr>Event_Name = ''/g/b'', Op = fsnotify_Create\<rparr>)], only_b)\<rparr>"

section \<open>Properties\<close>

subsection \<open>Decimal text\<close>

lemma lt10_cases:
  "k < (10::nat) \<Longrightarrow> k = 0 \<or> k = 1 \<or> k = 2 \<or> k = 3 \<or> k = 4 \<or> k = 5 \<or> k = 6 \<or> k = 7 \<or> k = 8 \<or> k = 9"
  by arith

lemma digit_char_props: "is_digit (digit_char n) \<and> digit_val (digit_char n) = n mod 10"
proof -
  have "n mod 10 < 10" by simp
  from lt10_cases [OF this] show ?thesis
    by (auto simp: digit_char_def is_digit_def digit_val_def)
qed

lemma is_digit_digit_char [simp]: "is_digit (digit_char n)"
  using digit_char_props by blast

lemma digit_val_digit_char [simp]: "digit_val (digit_char n) = n mod 10"
  using digit_char_props by blast

lemma nat_of_digits_snoc [simp]: "nat_of_digits (s @ [c]) = 10 * nat_of_digits s + digit_val c"
  by (simp add: nat_of_digits_def)

lemma nat_of_digits_Nil [simp]: "nat_of_digits [] = 0"
  by (simp add: nat_of_digits_def)

lemma length_digits_fixed [simp]: "length (digits_fixed k n) = k"
  by (induction k arbitrary: n) auto

lemma all_digits_fixed [simp]: "list_all is_digit (digits_fixed k n)"
  by (induction k arbitrary: n) auto

lemma nat_of_digits_fixed: "n < 10 ^ k \<Longrightarrow> nat_of_digits (digits_fixed k n) = n"
proof (induction k arbitrary: n)
  case 0
  then show ?case by simp
next
  case (Suc k)
  then have "n div 10 < 10 ^ k"
    by (simp add: less_mult_imp_div_less mult.commute)
  with Suc.IH have "nat_of_digits (digits_fixed k (n div 10)) = n div 10" by blast
  then show ?case by simp
qed

lemma all_digits_dec: "list_all is_digit (dec n)"
  by (induction n rule: dec.induct) (subst dec.simps, simp)

lemma dec_nonempty: "dec n \<noteq> []"
  by (subst dec.simps) simp

lemma nat_of_digits_dec: "nat_of_digits (dec n) = n"
proof (induction n rule: dec.induct)
  case (1 n)
  show ?case
  proof (cases "n < 10")
    case True
    then show ?thesis by (subst dec.simps) (simp add: nat_of_digits_def)
  next
    case False
    with 1 have "nat_of_digits (dec (n div 10)) = n div 10" by simp
    with False show ?thesis by (subst dec.simps) simp
  qed
qed

lemma parse_nat_dec: "parse_nat (dec n) = Some n"
  by (simp add: parse_nat_def all_digits_dec dec_nonempty nat_of_digits_dec)

lemma hd_dec_digit: "is_digit (hd (dec n))"
  using all_digits_dec [of n] dec_nonempty [of n] by (cases "dec n") auto

lemma minus_not_digit: "\<not> is_digit (CHR ''-'')"
  by (simp add: is_digit_def)

lemma parse_int_show_int: "parse_int (show_int i) = Some i"
proof (cases "i < 0")
  case True
  then show ?thesis by (simp add: parse_int_def show_int_def parse_nat_dec)
next
  case False
  obtain c r where cr: "dec (nat i) = c # r"
    using dec_nonempty [of "nat i"] by (cases "dec (nat i)") auto
  with hd_dec_digit [of "nat i"] have "c \<noteq> CHR ''-''"
    using minus_not_digit by auto
  moreover have "parse_nat (c # r) = Some (nat i)"
    using parse_nat_dec [of "nat i"] cr by simp
  ultimately show ?thesis using False cr by (simp add: parse_int_def show_int_def)
qed

lemma take_digits_fixed:
  "n < 10 ^ k \<Longrightarrow> take_digits k (digits_fixed k n @ r) = Some (n, r)"
  by (simp add: take_digits_def nat_of_digits_fixed)

lemma expect_Cons [simp]: "expect c (c # r) = Some r"
  by (simp add: expect_def)

subsection \<open>Timestamps\<close>

lemma strip_zeros_pad:
  "strip_zeros s @ replicate (length s - length (strip_zeros s)) (CHR ''0'') = s"
proof (induction s rule: rev_induct)
  case Nil
  then show ?case by (simp add: strip_zeros_def)
next
  case (snoc c s)
  show ?case
  proof (cases "c = CHR ''0''")
    case True
    have "strip_zeros (s @ [c]) = strip_zeros s"
      using True by (simp add: strip_zeros_def)
    moreover have "length (strip_zeros s) \<le> length s"
      by (simp add: strip_zeros_def length_dropWhile_le [of _ "rev s", simplified])
    ultimately show ?thesis
      using snoc True
      by (simp add: Suc_diff_le replicate_append_same [symmetric])
  next
    case False
    then show ?thesis by (simp add: strip_zeros_def)
  qed
qed

lemma strip_zeros_digits: "list_all is_digit s \<Longrightarrow> list_all is_digit (strip_zeros s)"
  unfolding strip_zeros_def list_all_iff by (auto dest: set_dropWhileD)

lemma nat_of_digits_zeros: "nat_of_digits (replicate k (CHR ''0'')) = 0"
  by (induction k) (simp_all add: nat_of_digits_def digit_val_def)

lemma strip_zeros_Nil_iff: "strip_zeros s = [] \<Longrightarrow> nat_of_digits s = 0"
  using strip_zeros_pad [of s] nat_of_digits_zeros [of "length s"] by simp

lemma length_strip_zeros: "length (strip_zeros s) \<le> length s"
  by (simp add: strip_zeros_def length_dropWhile_le [of _ "rev s", simplified])

lemma takeWhile_digits_stop:
  "list_all is_digit ds \<Longrightarrow> r \<noteq> [] \<Longrightarrow> \<not> is_digit (hd r) \<Longrightarrow>
   takeWhile is_digit (ds @ r) = ds \<and> dropWhile is_digit (ds @ r) = r"
  by (cases r) (auto simp: list_all_iff)

lemma parse_frac_format:
  assumes "ns < 1000000000" and "r \<noteq> []" and "\<not> is_digit (hd r)" and "hd r \<noteq> CHR ''.''"
  shows "parse_frac (format_frac ns @ r) = Some (ns, r)"
proof (cases "ns = 0")
  case True
  with assms show ?thesis by (cases r) (auto simp: parse_frac_def format_frac_def)
next
  case False
  let ?d = "digits_fixed 9 ns"
  let ?s = "strip_zeros ?d"
  have nd: "nat_of_digits ?d = ns"
    using assms(1) by (intro nat_of_digits_fixed) simp
  have ne: "?s \<noteq> []"
    using strip_zeros_Nil_iff [of ?d] nd False by auto
  have dg: "list_all is_digit ?s"
    by (rule strip_zeros_digits) simp
  have tw: "takeWhile is_digit (?s @ r) = ?s" "dropWhile is_digit (?s @ r) = r"
    using takeWhile_digits_stop [OF dg assms(2,3)] by auto
  have len: "length ?s \<le> 9"
    using length_strip_zeros [of ?d] by simp
  have pad: "?s @ replicate (9 - length ?s) (CHR ''0'') = ?d"
    using strip_zeros_pad [of ?d] by simp
  have "take 9 (?s @ replicate (9 - length ?s) (CHR ''0'')) = ?d"
    unfolding pad by simp
  then show ?thesis
    using False ne tw nd by (simp add: parse_frac_def format_frac_def Let_def)
qed

lemma format_zone_head:
  "format_zone off \<noteq> [] \<and> \<not> is_digit (hd (format_zone off)) \<and> hd (format_zone off) \<noteq> CHR ''.''"
  by (simp add: format_zone_def is_digit_def)

lemma parse_zone_format:
  assumes "\<bar>off\<bar> < 1440"
  shows "parse_zone (format_zone off) = Some off"
proof (cases "off = 0")
  case True
  then show ?thesis by (simp add: parse_zone_def format_zone_def)
next
  case False
  define a where "a = nat \<bar>off\<bar>"
  have a: "a < 1440" "int a = \<bar>off\<bar>" using assms by (auto simp: a_def)
  have h: "a div 60 < 10 ^ 2" and m: "a mod 60 < 10 ^ 2" and h24: "a div 60 < 24"
    using a(1) by auto
  have td1: "\<And>r. take_digits 2 (digits_fixed 2 (a div 60) @ r) = Some (a div 60, r)"
    using take_digits_fixed [OF h] by simp
  have td2: "take_digits 2 (digits_fixed 2 (a mod 60)) = Some (a mod 60, [])"
    using take_digits_fixed [OF m, of "[]"] by simp
  have sum: "int (a div 60 * 60 + a mod 60) = \<bar>off\<bar>"
    using a(2) by simp
  show ?thesis
    using False td1 td2 h24 sum
    unfolding parse_zone_def format_zone_def a_def [symmetric]
    by (auto simp del: digits_fixed.simps of_nat_add of_nat_mult)
qed

lemma parse_format_RFC3339:
  assumes "valid_Time t" and "0 \<le> Year t" and "Year t < 10000"
  shows "parse_RFC3339 (format_RFC3339Nano t) = Some t"
proof -
  have y: "nat (Year t) < 10 ^ 4" using assms by simp
  have f: "Month t < 10 ^ 2" "Day t < 10 ^ 2" "Hour t < 10 ^ 2" "Minute t < 10 ^ 2"
      "Second t < 10 ^ 2"
    using assms(1) by (auto simp: valid_Time_def daysIn_def split: if_splits)
  have ns: "Nanosecond t < 1000000000" and off: "\<bar>ZoneOffset t\<bar> < 1440"
    using assms(1) by (auto simp: valid_Time_def)
  note td = take_digits_fixed [OF y] f [THEN take_digits_fixed]
  have fr: "parse_frac (format_frac (Nanosecond t) @ format_zone (ZoneOffset t)) =
            Some (Nanosecond t, format_zone (ZoneOffset t))"
    using parse_frac_format [OF ns] format_zone_head by blast
  have "\<lparr>Year = int (nat (Year t)), Month = Month t, Day = Day t, Hour = Hour t,
         Minute = Minute t, Second = Second t, Nanosecond = Nanosecond t,
         ZoneOffset = ZoneOffset t\<rparr> = t"
    using assms(2) by simp
  then show ?thesis
    using assms(1) td fr parse_zone_format [OF off]
    unfolding parse_RFC3339_def format_RFC3339Nano_def
    by (simp del: digits_fixed.simps)
qed

subsection \<open>YAML\<close>

lemma digits_fixed_chars: "c \<in> set (digits_fixed k n) \<Longrightarrow> is_digit c"
  using all_digits_fixed [of k n] by (simp add: list_all_iff)

lemma dec_chars: "c \<in> set (dec n) \<Longrightarrow> is_digit c"
  using all_digits_dec [of n] by (simp add: list_all_iff)

lemma show_int_chars: "c \<in> set (show_int i) \<Longrightarrow> is_digit c \<or> c = CHR ''-''"
  by (auto simp: show_int_def dest: dec_chars split: if_splits)

lemma strip_zeros_chars: "c \<in> set (strip_zeros s) \<Longrightarrow> c \<in> set s"
  by (auto simp: strip_zeros_def dest: set_dropWhileD)

lemma format_RFC3339Nano_chars:
  "c \<in> set (format_RFC3339Nano t) \<Longrightarrow> is_digit c \<or> c \<in> set ''-T:.Z+''"
  unfolding format_RFC3339Nano_def format_frac_def format_zone_def
  by (auto simp del: digits_fixed.simps dest!: digits_fixed_chars strip_zeros_chars split: if_splits)

lemma split_on_line: "c \<notin> set l \<Longrightarrow> split_on c (l @ c # r) = l # split_on c r"
  by (induction l) auto

lemma parse_scalar_text [simp]: "parse_scalar (scalar_text v) = v"
proof (cases v)
  case (JString s)
  then show ?thesis by (simp add: parse_scalar_def butlast_append)
next
  case (JNumber i)
  have "show_int i \<noteq> []" and "hd (show_int i) \<noteq> CHR 0x22"
    using dec_nonempty hd_dec_digit [of "nat i"] 
    by (auto simp: show_int_def is_digit_def)
  then show ?thesis using JNumber by (simp add: parse_scalar_def parse_int_show_int)
qed

lemma takeWhile_neq_stop: "c \<notin> set k \<Longrightarrow> takeWhile (\<lambda>x. x \<noteq> c) (k @ c # r) = k"
  by (induction k) auto

lemma dropWhile_neq_stop: "c \<notin> set k \<Longrightarrow> dropWhile (\<lambda>x. x \<noteq> c) (k @ c # r) = c # r"
  by (induction k) auto

lemma parse_line_member:
  assumes "k \<noteq> []" and "CHR '':'' \<notin> set k"
  shows "parse_line (k @ '': '' @ scalar_text v) = Some (k, v)"
  using assms takeWhile_neq_stop [OF assms(2)] dropWhile_neq_stop [OF assms(2)]
  by (simp add: parse_line_def)

lemma parse_lines_members:
  assumes "\<forall>m \<in> set ms. fst m \<noteq> [] \<and> CHR '':'' \<notin> set (fst m) \<and> CHR 0x0A \<notin> set (fst m) \<and>
             CHR 0x0A \<notin> set (scalar_text (snd m))"
  shows "parse_lines (split_on (CHR 0x0A) (concat (map yaml_member_text ms))) = Some ms"
  using assms
proof (induction ms)
  case Nil
  then show ?case by simp
next
  case (Cons m ms)
  obtain k v where m: "m = (k, v)" by (cases m)
  have k: "k \<noteq> []" "CHR '':'' \<notin> set k" "CHR 0x0A \<notin> set k" "CHR 0x0A \<notin> set (scalar_text v)"
    using Cons.prems m by auto
  have nl: "CHR 0x0A \<notin> set (k @ '': '' @ scalar_text v)"
    using k by simp
  have "concat (map yaml_member_text (m # ms)) =
        (k @ '': '' @ scalar_text v) @ CHR 0x0A # concat (map yaml_member_text ms)"
    by (simp add: yaml_member_text_def m)
  then have "split_on (CHR 0x0A) (concat (map yaml_member_text (m # ms))) =
        (k @ '': '' @ scalar_text v) # split_on (CHR 0x0A) (concat (map yaml_member_text ms))"
    using split_on_line [OF nl] by simp
  moreover have "parse_lines (split_on (CHR 0x0A) (concat (map yaml_member_text ms))) = Some ms"
    using Cons by simp
  ultimately show ?case
    using parse_line_member [OF k(1,2), of v] k(1) by (simp add: m)
qed

lemma yaml_parse_render:
  assumes "\<forall>m \<in> set ms. fst m \<noteq> [] \<and> CHR '':'' \<notin> set (fst m) \<and> CHR 0x0A \<notin> set (fst m) \<and>
             CHR 0x0A \<notin> set (scalar_text (snd m))"
    and "\<forall>m \<in> set ms. hd (fst m) \<noteq> CHR ''{''"
  shows "yaml_parse (yaml_render ms) = Inr ms"
proof (cases ms)
  case Nil
  then show ?thesis by (simp add: yaml_parse_def yaml_render_def)
next
  case (Cons m ms')
  obtain c k where k: "fst m = c # k" and c: "c \<noteq> CHR ''{''"
    using assms Cons by (cases "fst m") auto
  have "concat (map yaml_member_text ms) \<noteq> ''{}'' @ [CHR 0x0A]"
    using k c by (simp add: Cons yaml_member_text_def)
  then show ?thesis
    using parse_lines_members [OF assms(1)] Cons by (simp add: yaml_parse_def yaml_render_def)
qed

lemma time_member_ok:
  assumes "time_member key v = Inr ms"
  shows "\<forall>m \<in> set ms. fst m = key \<and> CHR 0x0A \<notin> set (scalar_text (snd m))"
proof (cases v)
  case None
  with assms show ?thesis by (simp add: time_member_def)
next
  case (Some t)
  have "CHR 0x0A \<notin> set (format_RFC3339Nano t)"
    using format_RFC3339Nano_chars [of "CHR 0x0A" t] by (auto simp: is_digit_def)
  with assms Some show ?thesis
    by (auto simp: time_member_def Time_MarshalText_def split: if_splits)
qed

lemma int_member_ok:
  "\<forall>m \<in> set (int_member key v). fst m = key \<and> CHR 0x0A \<notin> set (scalar_text (snd m))"
proof (cases v)
  case None
  then show ?thesis by (simp add: int_member_def)
next
  case (Some c)
  have "CHR 0x0A \<notin> set (show_int (sint c))"
    using show_int_chars [of "CHR 0x0A" "sint c"] by (auto simp: is_digit_def)
  with Some show ?thesis by (simp add: int_member_def)
qed

lemma Tombstone_members_keys:
  assumes "Tombstone_members t = Inr ms"
  shows "\<forall>m \<in> set ms. fst m \<in> {''Born'', ''Died'', ''ExitCode''} \<and>
           CHR 0x0A \<notin> set (scalar_text (snd m))"
proof -
  obtain b d where b: "time_member ''Born'' (Born t) = Inr b"
    and d: "time_member ''Died'' (Died t) = Inr d"
    and ms: "ms = b @ d @ int_member ''ExitCode'' (ExitCode t)"
    using assms by (auto simp: Tombstone_members_def split: sum.splits)
  show ?thesis
    unfolding ms using time_member_ok [OF b] time_member_ok [OF d]
      int_member_ok [of "''ExitCode''" "ExitCode t"]
    by auto
qed

lemma yaml_parse_Tombstone:
  assumes "Tombstone_members t = Inr ms"
  shows "yaml_parse (yaml_render ms) = Inr ms"
proof (rule yaml_parse_render)
  show "\<forall>m \<in> set ms. fst m \<noteq> [] \<and> CHR '':'' \<notin> set (fst m) \<and> CHR 0x0A \<notin> set (fst m) \<and>
             CHR 0x0A \<notin> set (scalar_text (snd m))"
    using Tombstone_members_keys [OF assms] by auto
  show "\<forall>m \<in> set ms. hd (fst m) \<noteq> CHR ''{''"
    using Tombstone_members_keys [OF assms] by auto
qed

subsection \<open>Files\<close>

lemma decode_time_format:
  "valid_Time tm \<Longrightarrow> Time_MarshalText tm = Inr s \<Longrightarrow> decode_time (JString s) = Inr tm"
  by (auto simp: Time_MarshalText_def decode_time_def parse_format_RFC3339 split: if_splits)

lemma decode_int_sint: "decode_int (JNumber (sint (c :: go_int))) = Inr c"
  using sint_ge [of c] sint_lt [of c] by (simp add: decode_int_def)

lemma decode_Tombstone_members:
  assumes "Tombstone_members t = Inr ms"
    and "\<forall>b. Born t = Some b \<longrightarrow> valid_Time b"
    and "\<forall>d. Died t = Some d \<longrightarrow> valid_Time d"
  shows "decode_members ms \<lparr>Born = None, Died = None, ExitCode = None, Graveyard = g, Name = n\<rparr>
         = Inr \<lparr>Born = Born t, Died = Died t, ExitCode = ExitCode t, Graveyard = g, Name = n\<rparr>"
  using assms
  by (cases "Born t"; cases "Died t"; cases "ExitCode t")
     (auto simp: Tombstone_members_def time_member_def int_member_def decode_time_format
        decode_int_sint split: sum.splits)

lemma yaml_roundtrip:
  assumes "yaml_Marshal t = Inr pretty"
    and "\<forall>b. Born t = Some b \<longrightarrow> valid_Time b"
    and "\<forall>d. Died t = Some d \<longrightarrow> valid_Time d"
  shows "yaml_Unmarshal pretty \<lparr>Born = None, Died = None, ExitCode = None, Graveyard = g, Name = n\<rparr>
         = Inr \<lparr>Born = Born t, Died = Died t, ExitCode = ExitCode t, Graveyard = g, Name = n\<rparr>"
proof -
  obtain ms where ms: "Tombstone_members t = Inr ms" and p: "pretty = yaml_render ms"
    using assms(1) by (auto simp: yaml_Marshal_def split: sum.splits)
  show ?thesis
    unfolding p yaml_Unmarshal_def
    using yaml_parse_Tombstone [OF ms] decode_Tombstone_members [OF ms assms(2,3)]
    by simp
qed

lemma lookup_store [simp]: "lookup (store p n w) q = (if q = p then Some n else lookup w q)"
  by (simp add: lookup_def store_def update_conv')

lemma free_store [simp]: "free (store p n w) = free w"
  by (simp add: store_def)

lemma logged_store [simp]: "logged (store p n w) = logged w"
  by (simp add: store_def)

lemma free_mkdir_each: "mkdir_each ds w = (r, w') \<Longrightarrow> free w' = free w"
  by (induction ds arbitrary: w) (auto split: option.splits node.splits)

lemma free_MkdirAll: "os_MkdirAll p w = (r, w') \<Longrightarrow> free w' = free w"
  by (auto simp: os_MkdirAll_def dest: free_mkdir_each split: if_splits)

lemma Create_ok:
  assumes "os_Create p w = (Inr f, w')"
  shows "f = filepath_Clean p \<and> p \<noteq> [] \<and> lookup w' f = Some (Regular []) \<and> free w' = free w \<and>
         \<not> is_dir w' f"
  using assms by (auto simp: os_Create_def Let_def is_dir_def split: if_splits)

lemma file_Write_ok:
  assumes "lookup w f = Some (Regular c)" and "\<not> is_dir w f"
    and "file_Write f b w = (n, r, w')"
  shows "lookup w' f = Some (Regular (c @ take (free w) b)) \<and> \<not> is_dir w' f \<and>
         (r = None \<longleftrightarrow> length b \<le> free w)"
  using assms by (auto simp: file_Write_def Let_def is_dir_def min_def split: if_splits)

lemma ReadFile_Regular:
  "p \<noteq> [] \<Longrightarrow> lookup w (filepath_Clean p) = Some (Regular c) \<Longrightarrow>
   \<not> is_dir w (filepath_Clean p) \<Longrightarrow> ioutil_ReadFile p w = Inr c"
  by (simp add: ioutil_ReadFile_def Let_def)

lemma Write_content:
  assumes "Write t w = (None, w')"
  shows "\<exists>pretty. yaml_Marshal t = Inr pretty \<and>
           ioutil_ReadFile (Path t) w' = Inr (take (free w) pretty)"
proof -
  obtain w1 where w1: "os_MkdirAll (Graveyard t) w = (None, w1)"
    using assms by (auto simp: Write_def split: prod.splits option.splits)
  obtain f w2 where w2: "os_Create (Path t) w1 = (Inr f, w2)"
    using assms w1 by (auto simp: Write_def split: prod.splits sum.splits)
  obtain pretty where pretty: "yaml_Marshal t = Inr pretty"
    using assms w1 w2 by (auto simp: Write_def split: prod.splits sum.splits)
  obtain k r where w3: "file_Write f pretty w2 = (k, r, w')"
    using assms w1 w2 pretty by (auto simp: Write_def split: prod.splits)
  have f: "f = filepath_Clean (Path t)" and ne: "Path t \<noteq> []"
    and l2: "lookup w2 f = Some (Regular [])" and d2: "\<not> is_dir w2 f"
    and fr: "free w2 = free w"
    using Create_ok [OF w2] free_MkdirAll [OF w1] by auto
  have "lookup w' f = Some (Regular ([] @ take (free w2) pretty)) \<and> \<not> is_dir w' f"
    using file_Write_ok [OF l2 d2 w3] by blast
  then have "ioutil_ReadFile (Path t) w' = Inr (take (free w) pretty)"
    using ne unfolding f fr by (intro ReadFile_Regular) auto
  with pretty show ?thesis by blast
qed

lemma Write_Read:
  assumes "Write t w = (None, w')"
    and "yaml_Marshal t = Inr pretty" and "length pretty \<le> free w"
    and "\<forall>b. Born t = Some b \<longrightarrow> valid_Time b"
    and "\<forall>d. Died t = Some d \<longrightarrow> valid_Time d"
  shows "Read (Graveyard t) (Name t) w' = Inr t"
proof -
  have "ioutil_ReadFile (Path t) w' = Inr pretty"
    using Write_content [OF assms(1)] assms(2,3) by auto
  moreover have "Path \<lparr>Born = None, Died = None, ExitCode = None, Graveyard = Graveyard t,
      Name = Name t\<rparr> = Path t"
    by (simp add: Path_def)
  ultimately show ?thesis
    using yaml_roundtrip [OF assms(2,4,5), of "Graveyard t" "Name t"]
    by (simp add: Read_def)
qed

lemma decode_members_place:
  "decode_members ms t = Inr t' \<Longrightarrow> Graveyard t' = Graveyard t \<and> Name t' = Name t"
proof (induction ms arbitrary: t)
  case Nil
  then show ?case by simp
next
  case (Cons m ms)
  then show ?case by (fastforce split: if_splits sum.splits)
qed

lemma Read_place:
  assumes "Read g n w = Inr t'"
  shows "Graveyard t' = g \<and> Name t' = n"
proof -
  obtain ms where "decode_members ms
      \<lparr>Born = None, Died = None, ExitCode = None, Graveyard = g, Name = n\<rparr> = Inr t'"
    using assms by (auto simp: Read_def Let_def yaml_Unmarshal_def split: sum.splits)
  from decode_members_place [OF this] show ?thesis by simp
qed

subsection \<open>The claims\<close>

subsubsection \<open>C1: writing, then reading\<close>

text \<open>
  What holds of the round trip. For a record with any of \<open>Born\<close>, \<open>Died\<close>, \<open>ExitCode\<close>
  set or unset: when \<open>Write\<close> returns \<open>nil\<close> and the disk took the whole payload, \<open>Read\<close>
  with the record's graveyard and name returns the record itself, that is, the three
  written fields and the two arguments of \<open>Read\<close>. Whatever a file holds, the
  \<open>Graveyard\<close> and \<open>Name\<close> of a record that \<open>Read\<close> returns are the arguments of \<open>Read\<close>.
\<close>

lemma Write_Read_roundtrip:
  assumes "Write t w = (None, w')"
    and "yaml_Marshal t = Inr pretty" and "length pretty \<le> free w"
    and "\<forall>b. Born t = Some b \<longrightarrow> valid_Time b"
    and "\<forall>d. Died t = Some d \<longrightarrow> valid_Time d"
  shows "Read (Graveyard t) (Name t) w' = Inr t \<and>
         (\<forall>g n w'' t'. Read g n w'' = Inr t' \<longrightarrow> Graveyard t' = g \<and> Name t' = n)"
  using Write_Read [OF assms] Read_place by blast

lemma Write_Read_roundtrip_example:
  "Write (app\<lparr>Born := Some morning\<rparr>) disk = (None, snd (Write (app\<lparr>Born := Some morning\<rparr>) disk)) \<and>
   Read ''/g'' ''app'' (snd (Write (app\<lparr>Born := Some morning\<rparr>) disk)) = Inr (app\<lparr>Born := Some morning\<rparr>) \<and>
   Read ''/g'' ''app'' impostor = Inr app"
proof -
  let ?t = "app\<lparr>Born := Some morning\<rparr>"
  have "fst (Write ?t disk) = None" by code_simp
  then have h1: "Write ?t disk = (None, snd (Write ?t disk))"
    by (metis prod.collapse)
  have h2: "yaml_Marshal ?t = Inr (''Born: '' @ CHR 0x22 # ''2020-04-04T20:15:27.4353759-07:00'' @ [CHR 0x22, CHR 0x0A])"
    by code_simp
  have h3: "length (''Born: '' @ CHR 0x22 # ''2020-04-04T20:15:27.4353759-07:00'' @ [CHR 0x22, CHR 0x0A]) \<le> free disk"
    by (simp add: disk_def)
  have h4: "\<forall>b. Born ?t = Some b \<longrightarrow> valid_Time b"
    by (simp add: valid_Time_def morning_def daysIn_def)
  have h5: "\<forall>d. Died ?t = Some d \<longrightarrow> valid_Time d"
    by (simp add: app_def)
  have g: "Graveyard ?t = ''/g''" "Name ?t = ''app''" by (simp_all add: app_def)
  have i: "Read ''/g'' ''app'' impostor = Inr app"
    by code_simp
  from Write_Read_roundtrip [OF h1 h2 h3 h4 h5] h1 i show ?thesis
    unfolding g by blast
qed

text \<open>
  C1 (round trip). The claim asks that \<open>Write\<close> and then \<open>Read\<close> give back the written
  fields. They do not when the disk is short: \<open>Write\<close> drops the error of \<open>file.Write\<close>
  and returns \<open>nil\<close>, and \<open>Read\<close> then returns a record with \<open>Born\<close> unset from the
  empty file of a full disk, or an error from the cut-off file of a disk with room for
  ten bytes.
\<close>

theorem Write_Read_full_disk:
  "fst (Write (app\<lparr>Born := Some morning\<rparr>) full) = None \<and>
   Read ''/g'' ''app'' (snd (Write (app\<lparr>Born := Some morning\<rparr>) full)) =
     Inr \<lparr>Born = None, Died = None, ExitCode = None, Graveyard = ''/g'', Name = ''app''\<rparr> \<and>
   fst (Write (app\<lparr>Born := Some morning\<rparr>) nearly_full) = None \<and>
   Read ''/g'' ''app'' (snd (Write (app\<lparr>Born := Some morning\<rparr>) nearly_full)) =
     Inl (''failed to unmarshal tombstone yaml: error unmarshaling JSON: parsing time '' @
          CHR 0x22 # ''202: cannot parse as RFC 3339'')"
  by code_simp

subsubsection \<open>C2: failures of Write\<close>

text \<open>
  \<open>Write\<close> returns \<open>nil\<close> exactly when the directory could be made, the file created and
  the record marshalled, whatever \<open>file.Write\<close> then returns.
\<close>

lemma Write_nil_iff:
  "fst (Write t w) = None \<longleftrightarrow>
   (\<exists>w1 f w2 pretty. os_MkdirAll (Graveyard t) w = (None, w1) \<and>
      os_Create (Path t) w1 = (Inr f, w2) \<and> yaml_Marshal t = Inr pretty)"
  by (auto simp: Write_def split: prod.splits option.splits sum.splits)

text \<open>
  C2 (every failure of \<open>Write\<close> reaches the caller). The claim asks for an error whenever
  the directory, the file, the marshalling or the writing of the content fails. The first
  three are checked and returned. The fourth is not: on a disk with room for ten bytes,
  \<open>file.Write\<close> stores ten of the 42 bytes of the payload and reports that no space is
  left, and \<open>Write\<close> returns \<open>nil\<close> over a file that holds a cut-off payload.
\<close>

theorem Write_drops_write_error:
  "fst (Write (app\<lparr>Born := Some morning\<rparr>) nearly_full) = None \<and>
   yaml_Marshal (app\<lparr>Born := Some morning\<rparr>) =
     Inr (''Born: '' @ CHR 0x22 # ''2020-04-04T20:15:27.4353759-07:00'' @ [CHR 0x22, CHR 0x0A]) \<and>
   fst (snd (file_Write ''/g/app''
               (''Born: '' @ CHR 0x22 # ''2020-04-04T20:15:27.4353759-07:00'' @ [CHR 0x22, CHR 0x0A])
               (snd (os_Create ''/g/app'' (snd (os_MkdirAll ''/g'' nearly_full))))))
     = Some ''write /g/app: no space left on device'' \<and>
   ioutil_ReadFile ''/g/app'' (snd (Write (app\<lparr>Born := Some morning\<rparr>) nearly_full))
     = Inr (''Born: '' @ CHR 0x22 # ''202'')"
  by code_simp

subsubsection \<open>C3: failures of the handler\<close>

lemma invoke_calls: "invoke h who ev s = (r, s') \<Longrightarrow> fst s' = fst s @ [(who, ev)]"
  by (auto simp: invoke_def split: prod.splits)

lemma fst_logging [simp]: "fst (logging l s) = fst s"
  by (simp add: logging_def)

lemma worker_events:
  "worker h g (map (\<lambda>e. Notification (Some e)) evs) s = (b, s') \<Longrightarrow>
   b \<and> fst s' = fst s @ map (Pair Live) evs"
proof (induction evs arbitrary: s)
  case Nil
  then show ?case by simp
next
  case (Cons e evs)
  obtain r s1 where i: "invoke h Live e s = (r, s1)" by (cases "invoke h Live e s")
  have c: "fst s1 = fst s @ [(Live, e)]" using invoke_calls [OF i] .
  show ?case
  proof (cases r)
    case None
    with Cons.prems i have "worker h g (map (\<lambda>e. Notification (Some e)) evs) s1 = (b, s')"
      by simp
    from Cons.IH [OF this] c show ?thesis by simp
  next
    case (Some err)
    with Cons.prems i obtain l where
      "worker h g (map (\<lambda>e. Notification (Some e)) evs) (logging l s1) = (b, s')"
      by auto
    from Cons.IH [OF this] c show ?thesis by simp
  qed
qed

lemma bootstrap_append:
  "bootstrap h g (xs @ ys) s =
     (case bootstrap h g xs s of (None, s1) \<Rightarrow> bootstrap h g ys s1 | (Some e, s1) \<Rightarrow> (Some e, s1))"
  by (induction xs arbitrary: s) (auto split: prod.splits option.splits)

lemma bootstrap_calls:
  "bootstrap h g files s = (r, s') \<Longrightarrow>
   (r = None \<longrightarrow> fst s' = fst s @ map (\<lambda>f. (Bootstrap, bootstrap_event g f)) files) \<and>
   (r \<noteq> None \<longrightarrow> (\<exists>k. 0 < k \<and> k \<le> length files \<and>
       fst s' = fst s @ map (\<lambda>f. (Bootstrap, bootstrap_event g f)) (take k files)))"
proof (induction files arbitrary: s)
  case Nil
  then show ?case by simp
next
  case (Cons f files)
  obtain q s1 where i: "invoke h Bootstrap (bootstrap_event g f) s = (q, s1)"
    by (cases "invoke h Bootstrap (bootstrap_event g f) s")
  have c: "fst s1 = fst s @ [(Bootstrap, bootstrap_event g f)]" using invoke_calls [OF i] .
  show ?case
  proof (cases q)
    case None
    with Cons.prems i have b: "bootstrap h g files s1 = (r, s')" by simp
    from Cons.IH [OF b] have
      n: "r = None \<longrightarrow> fst s' = fst s1 @ map (\<lambda>f. (Bootstrap, bootstrap_event g f)) files"
      and e: "r \<noteq> None \<longrightarrow> (\<exists>k. 0 < k \<and> k \<le> length files \<and>
        fst s' = fst s1 @ map (\<lambda>f. (Bootstrap, bootstrap_event g f)) (take k files))"
      by blast+
    have "\<exists>k. 0 < k \<and> k \<le> length (f # files) \<and>
        fst s' = fst s @ map (\<lambda>f. (Bootstrap, bootstrap_event g f)) (take k (f # files))"
      if "r \<noteq> None"
    proof -
      from e that obtain k where k: "k \<le> length files"
        "fst s' = fst s1 @ map (\<lambda>f. (Bootstrap, bootstrap_event g f)) (take k files)" by blast
      then have "0 < Suc k \<and> Suc k \<le> length (f # files) \<and>
        fst s' = fst s @ map (\<lambda>f. (Bootstrap, bootstrap_event g f)) (take (Suc k) (f # files))"
        using c by simp
      then show ?thesis by blast
    qed
    with n c show ?thesis by simp
  next
    case (Some err)
    with Cons.prems i have "r \<noteq> None" and "s' = s1" by auto
    moreover have "0 < Suc 0 \<and> Suc 0 \<le> length (f # files) \<and>
        fst s1 = fst s @ map (\<lambda>f. (Bootstrap, bootstrap_event g f)) (take (Suc 0) (f # files))"
      using c by simp
    ultimately show ?thesis by blast
  qed
qed

lemma Returned_step:
  assumes "step fsn g h s s'"
    and "\<forall>e. caller s = Returned (Some e) \<longrightarrow>
           (\<exists>err. NewWatcher fsn = Some err \<and> e = ''failed to create watcher: '' @ err) \<or>
           (\<exists>err. Add fsn g = Some err \<and> e = ''failed to add watcher: '' @ err) \<or>
           (\<exists>err w. ioutil_ReadDir g w = Inl err \<and> e = ''failed to read graveyard dir: '' @ err) \<or>
           (\<exists>err f s0 s1. invoke h Bootstrap (bootstrap_event g f) s0 = (Some err, s1) \<and>
              e = ''failed handling existing tombstone: '' @ err)"
  shows "\<forall>e. caller s' = Returned (Some e) \<longrightarrow>
           (\<exists>err. NewWatcher fsn = Some err \<and> e = ''failed to create watcher: '' @ err) \<or>
           (\<exists>err. Add fsn g = Some err \<and> e = ''failed to add watcher: '' @ err) \<or>
           (\<exists>err w. ioutil_ReadDir g w = Inl err \<and> e = ''failed to read graveyard dir: '' @ err) \<or>
           (\<exists>err f s0 s1. invoke h Bootstrap (bootstrap_event g f) s0 = (Some err, s1) \<and>
              e = ''failed handling existing tombstone: '' @ err)"
  using assms
proof (induction rule: step.induct)
  case (read_dir_failed s err)
  then show ?case by auto
next
  case (loop_failed s f files err s')
  from loop_failed(2) have "\<exists>f s0 s1. invoke h Bootstrap (bootstrap_event g f) s0 = (Some err, s1)"
    by blast
  then show ?case by simp
qed simp_all

lemma Returned_origin:
  assumes "reachable fsn g h w s" and "caller s = Returned (Some e)"
  shows "(\<exists>err. NewWatcher fsn = Some err \<and> e = ''failed to create watcher: '' @ err) \<or>
         (\<exists>err. Add fsn g = Some err \<and> e = ''failed to add watcher: '' @ err) \<or>
         (\<exists>err w. ioutil_ReadDir g w = Inl err \<and> e = ''failed to read graveyard dir: '' @ err) \<or>
         (\<exists>err f s0 s1. invoke h Bootstrap (bootstrap_event g f) s0 = (Some err, s1) \<and>
            e = ''failed handling existing tombstone: '' @ err)"
proof -
  have "\<forall>e. caller s = Returned (Some e) \<longrightarrow>
           (\<exists>err. NewWatcher fsn = Some err \<and> e = ''failed to create watcher: '' @ err) \<or>
           (\<exists>err. Add fsn g = Some err \<and> e = ''failed to add watcher: '' @ err) \<or>
           (\<exists>err w. ioutil_ReadDir g w = Inl err \<and> e = ''failed to read graveyard dir: '' @ err) \<or>
           (\<exists>err f s0 s1. invoke h Bootstrap (bootstrap_event g f) s0 = (Some err, s1) \<and>
              e = ''failed handling existing tombstone: '' @ err)"
    using assms(1) unfolding reachable_def
  proof (induction rule: rtranclp_induct)
    case base
    then show ?case by (simp add: init_def)
  next
    case (step y z)
    from Returned_step [OF step(2) step(3)] show ?case .
  qed
  with assms(2) show ?thesis by blast
qed

text \<open>
  C3 (handler failures), as the code has it. In the goroutine, whatever the handler
  returns, every notification is handed to it, in order, and the loop is still running
  afterwards; a failure adds one line to the log and nothing else. In \<open>Watch\<close> itself it is
  otherwise: when the handler fails on the create event of an existing file, \<open>Watch\<close>
  stops there, the files listed after it get no event, and the failure is returned to
  the caller as \<open>failed handling existing tombstone\<close>. With the goroutine running next
  to it, an error that \<open>Watch\<close> returns still comes from making the watcher, from adding
  the graveyard, from listing it, or from the handler called on a create event of the
  bootstrap, and from nothing the goroutine does.
\<close>

theorem handler_failures:
  "(\<forall>evs s. fst (worker h g (map (\<lambda>e. Notification (Some e)) evs) s) \<and>
      fst (snd (worker h g (map (\<lambda>e. Notification (Some e)) evs) s)) = fst s @ map (Pair Live) evs) \<and>
   (\<forall>e s err s1. invoke h Live e s = (Some err, s1) \<longrightarrow>
      worker h g [Notification (Some e)] s =
        (True, logging (''Tombstone Watch('' @ g @ ''): error handling file system event: '' @ err @
                        [CHR 0x0A]) s1)) \<and>
   (\<forall>pre f post s s1 err s2.
      NewWatcher fsn = None \<longrightarrow> Add fsn g = None \<longrightarrow>
      ioutil_ReadDir g (snd s) = Inr (pre @ f # post) \<longrightarrow>
      bootstrap h g pre s = (None, s1) \<longrightarrow>
      invoke h Bootstrap (bootstrap_event g f) s1 = (Some err, s2) \<longrightarrow>
      Watch fsn g h s = (Some (''failed handling existing tombstone: '' @ err), s2) \<and>
      fst s2 = fst s @ map (\<lambda>f. (Bootstrap, bootstrap_event g f)) (pre @ [f])) \<and>
   (\<forall>w s e. reachable fsn g h w s \<longrightarrow> caller s = Returned (Some e) \<longrightarrow>
      (\<exists>err. NewWatcher fsn = Some err \<and> e = ''failed to create watcher: '' @ err) \<or>
      (\<exists>err. Add fsn g = Some err \<and> e = ''failed to add watcher: '' @ err) \<or>
      (\<exists>err w. ioutil_ReadDir g w = Inl err \<and> e = ''failed to read graveyard dir: '' @ err) \<or>
      (\<exists>err f s0 s1. invoke h Bootstrap (bootstrap_event g f) s0 = (Some err, s1) \<and>
         e = ''failed handling existing tombstone: '' @ err))"
proof (intro conjI allI impI)
  fix evs s
  obtain b s' where w: "worker h g (map (\<lambda>e. Notification (Some e)) evs) s = (b, s')"
    by (cases "worker h g (map (\<lambda>e. Notification (Some e)) evs) s")
  from worker_events [OF w] w
  show "fst (worker h g (map (\<lambda>e. Notification (Some e)) evs) s)"
    and "fst (snd (worker h g (map (\<lambda>e. Notification (Some e)) evs) s)) = fst s @ map (Pair Live) evs"
    by simp_all
next
  fix e s err s1
  assume "invoke h Live e s = (Some err, s1)"
  then show "worker h g [Notification (Some e)] s =
        (True, logging (''Tombstone Watch('' @ g @ ''): error handling file system event: '' @ err @
                        [CHR 0x0A]) s1)"
    by simp
next
  fix pre f post s s1 err s2
  assume a: "NewWatcher fsn = None" "Add fsn g = None"
    "ioutil_ReadDir g (snd s) = Inr (pre @ f # post)"
    "bootstrap h g pre s = (None, s1)"
    "invoke h Bootstrap (bootstrap_event g f) s1 = (Some err, s2)"
  then show "Watch fsn g h s = (Some (''failed handling existing tombstone: '' @ err), s2)"
    by (simp add: Watch_def bootstrap_append)
  from bootstrap_calls [OF a(4)] invoke_calls [OF a(5)]
  show "fst s2 = fst s @ map (\<lambda>f. (Bootstrap, bootstrap_event g f)) (pre @ [f])"
    by simp
next
  fix w s e
  assume "reachable fsn g h w s" and "caller s = Returned (Some e)"
  then show "(\<exists>err. NewWatcher fsn = Some err \<and> e = ''failed to create watcher: '' @ err) \<or>
      (\<exists>err. Add fsn g = Some err \<and> e = ''failed to add watcher: '' @ err) \<or>
      (\<exists>err w. ioutil_ReadDir g w = Inl err \<and> e = ''failed to read graveyard dir: '' @ err) \<or>
      (\<exists>err f s0 s1. invoke h Bootstrap (bootstrap_event g f) s0 = (Some err, s1) \<and>
         e = ''failed handling existing tombstone: '' @ err)"
    by (rule Returned_origin)
qed

theorem handler_failures_witness:
  "fst (worker failing ''/g''
         [Notification (Some \<lparr>Event_Name = ''/g/a'', Op = fsnotify_Write\<rparr>),
          Notification (Some \<lparr>Event_Name = ''/g/b'', Op = fsnotify_Create\<rparr>)] ([], two_files)) \<and>
   fst (snd (worker failing ''/g''
         [Notification (Some \<lparr>Event_Name = ''/g/a'', Op = fsnotify_Write\<rparr>),
          Notification (Some \<lparr>Event_Name = ''/g/b'', Op = fsnotify_Create\<rparr>)] ([], two_files))) =
     [(Live, \<lparr>Event_Name = ''/g/a'', Op = fsnotify_Write\<rparr>),
      (Live, \<lparr>Event_Name = ''/g/b'', Op = fsnotify_Create\<rparr>)] \<and>
   Watch quiet ''/g'' picky ([], two_files) =
     (Some ''failed handling existing tombstone: unreadable'',
      ([(Bootstrap, bootstrap_event ''/g'' ''a'')], two_files))"
proof -
  let ?evs = "[\<lparr>Event_Name = ''/g/a'', Op = fsnotify_Write\<rparr>, \<lparr>Event_Name = ''/g/b'', Op = fsnotify_Create\<rparr>]"
  have q: "NewWatcher quiet = None" "Add quiet ''/g'' = None"
    by (simp_all add: quiet_def)
  have l: "ioutil_ReadDir ''/g'' (snd ([], two_files)) = Inr ([] @ ''a'' # [''b''])"
    by code_simp
  have b: "bootstrap picky ''/g'' [] ([], two_files) = (None, ([], two_files))"
    by simp
  have i: "invoke picky Bootstrap (bootstrap_event ''/g'' ''a'') ([], two_files) =
      (Some ''unreadable'', ([(Bootstrap, bootstrap_event ''/g'' ''a'')], two_files))"
    by code_simp
  note boot = handler_failures [of picky "''/g''" quiet, THEN conjunct2, THEN conjunct2,
      THEN conjunct1, rule_format]
  note live = handler_failures [of failing "''/g''" quiet, THEN conjunct1, rule_format]
  have "Watch quiet ''/g'' picky ([], two_files) =
     (Some ''failed handling existing tombstone: unreadable'',
      ([(Bootstrap, bootstrap_event ''/g'' ''a'')], two_files))"
    using boot [OF q l b i] by simp
  moreover have "fst (worker failing ''/g'' (map (\<lambda>e. Notification (Some e)) ?evs) ([], two_files)) \<and>
      fst (snd (worker failing ''/g'' (map (\<lambda>e. Notification (Some e)) ?evs) ([], two_files))) =
        fst ([], two_files) @ map (Pair Live) ?evs"
    using live [of ?evs "([], two_files)"] by blast
  ultimately show ?thesis by simp
qed

text \<open>
  C3 as claimed fails on the bootstrap event: with a handler that always fails and a
  graveyard holding \<open>a\<close> and \<open>b\<close>, \<open>Watch\<close> returns the handler's failure to its caller and
  never calls the handler for \<open>b\<close>.
\<close>

theorem bootstrap_failure_is_returned:
  "Watch quiet ''/g'' failing ([], two_files) =
     (Some ''failed handling existing tombstone: boom'',
      ([(Bootstrap, \<lparr>Event_Name = ''/g/a'', Op = fsnotify_Create\<rparr>)], two_files))"
  by code_simp

subsubsection \<open>C4: the bootstrap and the goroutine\<close>

lemma calls_of_st_update [simp]:
  "calls_of who (s\<lparr>st := x\<rparr>) = map snd (filter (\<lambda>c. fst c = who) (fst x))"
  by (simp add: calls_of_def)

lemma calls_of_fields [simp]:
  "calls_of who (s\<lparr>caller := c\<rparr>) = calls_of who s"
  "calls_of who (s\<lparr>goroutine := g\<rparr>) = calls_of who s"
  "calls_of who (s\<lparr>subscribed := b\<rparr>) = calls_of who s"
  "calls_of who (s\<lparr>cancelled := b\<rparr>) = calls_of who s"
  "calls_of who (s\<lparr>Events := es\<rparr>) = calls_of who s"
  "calls_of who (s\<lparr>Errors := rs\<rparr>) = calls_of who s"
  "calls_of who (s\<lparr>listing := l\<rparr>) = calls_of who s"
  by (simp_all add: calls_of_def)

lemma calls_of_Bootstrap_invoke:
  "invoke h Bootstrap ev (st s) = (r, s') \<Longrightarrow>
   map snd (filter (\<lambda>c. fst c = Bootstrap) (fst s')) = calls_of Bootstrap s @ [ev]"
  by (auto simp: calls_of_def dest: invoke_calls)

lemma worker_one_fst:
  assumes "worker h g [x] s = (b, s')"
  shows "(case x of Notification (Some ev) \<Rightarrow> fst s' = fst s @ [(Live, ev)] | _ \<Rightarrow> fst s' = fst s)"
proof (cases x)
  case Done
  with assms show ?thesis by auto
next
  case (Notification n)
  show ?thesis
  proof (cases n)
    case None
    with assms Notification show ?thesis by auto
  next
    case (Some ev)
    obtain r s1 where i: "invoke h Live ev s = (r, s1)" by (cases "invoke h Live ev s")
    from invoke_calls [OF i] assms Notification Some i show ?thesis
      by (cases r) auto
  qed
next
  case (NotifyError n)
  with assms show ?thesis by (cases n) auto
qed

lemma watch_inv_init: "watch_inv g (init w)"
  by (simp add: watch_inv_def init_def calls_of_def)

lemma watch_inv_step:
  assumes "step fsn g h s s'" and "watch_inv g s"
  shows "watch_inv g s'"
  using assms
proof (induction rule: step.induct)
  case (read_dir s files)
  then show ?case by (auto simp: watch_inv_def)
next
  case (loop_handled s f files s')
  from loop_handled(3) obtain seen where
    seen: "listing s = Some (seen @ f # files)"
      "calls_of Bootstrap s = map (bootstrap_event g) seen"
    and rest: "goroutine s \<noteq> Unstarted" "subscribed s"
      "\<forall>files. listing s = Some files \<longrightarrow> (\<exists>w. ioutil_ReadDir g w = Inr files)"
    unfolding watch_inv_def loop_handled(1) by auto
  have "listing s = Some ((seen @ [f]) @ files)"
    "map snd (filter (\<lambda>c. fst c = Bootstrap) (fst s')) = map (bootstrap_event g) (seen @ [f])"
    using seen calls_of_Bootstrap_invoke [OF loop_handled(2)] by simp_all
  then show ?case using rest unfolding watch_inv_def
    by (simp del: append_assoc)
next
  case (loop_failed s f files err s')
  from loop_failed(3) obtain seen where
    seen: "listing s = Some (seen @ f # files)"
      "calls_of Bootstrap s = map (bootstrap_event g) seen"
    and rest: "goroutine s \<noteq> Unstarted" "subscribed s"
      "\<forall>files. listing s = Some files \<longrightarrow> (\<exists>w. ioutil_ReadDir g w = Inr files)"
    unfolding watch_inv_def loop_failed(1) by auto
  have "listing s = Some ((seen @ [f]) @ files)"
    "map snd (filter (\<lambda>c. fst c = Bootstrap) (fst s')) = map (bootstrap_event g) (seen @ [f])"
    using seen calls_of_Bootstrap_invoke [OF loop_failed(2)] by simp_all
  then show ?case using rest unfolding watch_inv_def
    by (simp del: append_assoc) (rule exI [of _ "seen @ [f]"], auto)
next
  case (loop_done s)
  then show ?case by (auto simp: watch_inv_def)
next
  case (select_done s b s')
  have "fst s' = fst (st s)"
    using worker_one_fst [OF select_done(3)] by simp
  with select_done(1,2,4) show ?case
    by (auto simp: watch_inv_def calls_of_def split: caller_pc.splits option.splits)
next
  case (select_event s event rest b s')
  have "fst s' = fst (st s) @ [(Live, event)]"
    using worker_one_fst [OF select_event(3)] by simp
  with select_event(1,2,4) show ?case
    by (auto simp: watch_inv_def calls_of_def split: caller_pc.splits option.splits)
next
  case (select_error s err rest b s')
  have "fst s' = fst (st s)"
    using worker_one_fst [OF select_error(3)] by simp
  with select_error(1,2,4) show ?case
    by (auto simp: watch_inv_def calls_of_def split: caller_pc.splits option.splits)
qed (auto simp: watch_inv_def calls_of_def split: caller_pc.splits option.splits)

lemma watch_inv_reachable: "reachable fsn g h w s \<Longrightarrow> watch_inv g s"
  unfolding reachable_def
  by (induction rule: rtranclp_induct) (auto intro: watch_inv_init watch_inv_step)

text \<open>
  C4 (bootstrap and live notifications), as the code has it. At every step of \<open>Watch\<close>
  and its goroutine: the goroutine was started before the graveyard was subscribed; the
  bootstrap has called the handler only after the subscription, and so has the goroutine;
  the bootstrap's calls are the create events of the first files of the listing, in
  order, and all of them once \<open>Watch\<close> has returned \<open>nil\<close>. The bootstrap runs in \<open>Watch\<close>
  itself before it returns, next to the running goroutine, so nothing orders its calls
  after or before the goroutine's.
\<close>

theorem bootstrap_in_Watch:
  assumes "reachable fsn g h w s"
  shows "(calls_of Bootstrap s \<noteq> [] \<longrightarrow> subscribed s \<and> goroutine s \<noteq> Unstarted) \<and>
         (calls_of Live s \<noteq> [] \<longrightarrow> subscribed s \<and> goroutine s \<noteq> Unstarted) \<and>
         (subscribed s \<longrightarrow> goroutine s \<noteq> Unstarted) \<and>
         (caller s = Returned None \<longrightarrow>
            (\<exists>files w'. ioutil_ReadDir g w' = Inr files \<and> listing s = Some files \<and>
               calls_of Bootstrap s = map (bootstrap_event g) files)) \<and>
         (\<forall>files. listing s = Some files \<longrightarrow>
            (\<exists>k. calls_of Bootstrap s = map (bootstrap_event g) (take k files)))"
proof -
  have inv: "watch_inv g s" using assms by (rule watch_inv_reachable)
  have a: "subscribed s \<longrightarrow> goroutine s \<noteq> Unstarted"
    and l: "calls_of Live s \<noteq> [] \<longrightarrow> subscribed s"
    and r: "\<forall>files. listing s = Some files \<longrightarrow> (\<exists>w. ioutil_ReadDir g w = Inr files)"
    using inv by (auto simp: watch_inv_def)
  have b: "calls_of Bootstrap s \<noteq> [] \<longrightarrow> subscribed s"
    using inv by (auto simp: watch_inv_def split: caller_pc.splits option.splits)
  have c: "caller s = Returned None \<longrightarrow>
      (\<exists>files. listing s = Some files \<and> calls_of Bootstrap s = map (bootstrap_event g) files)"
    using inv by (auto simp: watch_inv_def)
  have d: "\<exists>k. calls_of Bootstrap s = map (bootstrap_event g) (take k files)"
    if f: "listing s = Some files" for files
  proof -
    have "\<exists>seen rest. files = seen @ rest \<and> calls_of Bootstrap s = map (bootstrap_event g) seen"
      using inv f by (auto simp: watch_inv_def split: caller_pc.splits option.splits)
    then obtain seen rest where "files = seen @ rest"
      "calls_of Bootstrap s = map (bootstrap_event g) seen" by blast
    then have "calls_of Bootstrap s = map (bootstrap_event g) (take (length seen) files)"
      by simp
    then show ?thesis ..
  qed
  show ?thesis using a b c d l r by blast
qed

lemma only_b_listing: "ioutil_ReadDir ''/g'' only_b = Inr [''b'']"
  by code_simp

lemma only_b_event:
  "bootstrap_event ''/g'' ''b'' = \<lparr>Event_Name = ''/g/b'', Op = fsnotify_Create\<rparr>"
  by code_simp

lemma picky_b:
  "invoke picky who \<lparr>Event_Name = ''/g/b'', Op = op\<rparr> (calls, only_b) =
     (None, (calls @ [(who, \<lparr>Event_Name = ''/g/b'', Op = op\<rparr>)], only_b))"
  by (simp add: invoke_def picky_def)

theorem bootstrap_in_Watch_witness:
  "reachable quiet ''/g'' picky only_b settled \<and>
   caller settled = Returned None \<and> subscribed settled \<and> goroutine settled \<noteq> Unstarted \<and>
   listing settled = Some [''b''] \<and>
   calls_of Bootstrap settled = map (bootstrap_event ''/g'') [''b'']"
proof -
  let ?e = "\<lparr>Event_Name = ''/g/b'', Op = fsnotify_Create\<rparr>"
  let ?s1 = "\<lparr>caller = AtAdd, goroutine = Selecting, subscribed = False, cancelled = False,
              Events = [], Errors = [], listing = None, st = ([], only_b)\<rparr>"
  let ?s2 = "\<lparr>caller = AtReadDir, goroutine = Selecting, subscribed = True, cancelled = False,
              Events = [], Errors = [], listing = None, st = ([], only_b)\<rparr>"
  let ?s3 = "\<lparr>caller = AtLoop [''b''], goroutine = Selecting, subscribed = True, cancelled = False,
              Events = [], Errors = [], listing = Some [''b''], st = ([], only_b)\<rparr>"
  let ?s4 = "\<lparr>caller = AtLoop [], goroutine = Selecting, subscribed = True, cancelled = False,
              Events = [], Errors = [], listing = Some [''b''], st = ([(Bootstrap, ?e)], only_b)\<rparr>"
  let ?step = "step quiet ''/g'' picky"
  have 1: "?step (init only_b) ?s1"
    using step.go_worker [where s = "init only_b" and fsn = quiet]
    by (simp add: init_def quiet_def)
  have 2: "?step ?s1 ?s2"
    using step.added [where s = ?s1 and fsn = quiet and graveyard = "''/g''"]
    by (simp add: quiet_def)
  have 3: "?step ?s2 ?s3"
    using step.read_dir [where s = ?s2 and graveyard = "''/g''" and files = "[''b'']"]
    by (simp add: only_b_listing)
  have 4: "?step ?s3 ?s4"
    using step.loop_handled [where s = ?s3 and graveyard = "''/g''" and eventHandler = picky
        and f = "''b''" and files = "[]" and s' = "([(Bootstrap, ?e)], only_b)"]
    by (simp add: only_b_event picky_b)
  have 5: "?step ?s4 settled"
    using step.loop_done [where s = ?s4] by (simp add: settled_def)
  have r: "reachable quiet ''/g'' picky only_b settled"
    unfolding reachable_def using 1 2 3 4 5
    by (meson rtranclp.rtrancl_into_rtrancl rtranclp.rtrancl_refl)
  from bootstrap_in_Watch [OF r]
  have "calls_of Bootstrap settled = map (bootstrap_event ''/g'') [''b'']"
    by (simp add: settled_def)
  with r show ?thesis by (simp add: settled_def)
qed

text \<open>
  C4 as claimed fails: after the subscription and before the listing, the file \<open>b\<close> is
  written, the goroutine takes the notification and calls the handler, and only then
  does \<open>Watch\<close> list the graveyard and deliver the create event of \<open>b\<close>. The handler has
  seen a live notification before a bootstrap event, and the bootstrap event came from
  \<open>Watch\<close>, not from the goroutine.
\<close>

theorem live_before_bootstrap:
  "reachable quiet ''/g'' picky only_b raced \<and>
   caller raced = Returned None \<and>
   fst (st raced) = [(Live, \<lparr>Event_Name = ''/g/b'', Op = fsnotify_Write\<rparr>),
                      (Bootstrap, bootstrap_event ''/g'' ''b'')]"
proof -
  let ?e = "\<lparr>Event_Name = ''/g/b'', Op = fsnotify_Create\<rparr>"
  let ?n = "\<lparr>Event_Name = ''/g/b'', Op = fsnotify_Write\<rparr>"
  let ?s1 = "\<lparr>caller = AtAdd, goroutine = Selecting, subscribed = False, cancelled = False,
              Events = [], Errors = [], listing = None, st = ([], only_b)\<rparr>"
  let ?s2 = "\<lparr>caller = AtReadDir, goroutine = Selecting, subscribed = True, cancelled = False,
              Events = [], Errors = [], listing = None, st = ([], only_b)\<rparr>"
  let ?s3 = "\<lparr>caller = AtReadDir, goroutine = Selecting, subscribed = True, cancelled = False,
              Events = [?n], Errors = [], listing = None, st = ([], only_b)\<rparr>"
  let ?s4 = "\<lparr>caller = AtReadDir, goroutine = Selecting, subscribed = True, cancelled = False,
              Events = [], Errors = [], listing = None, st = ([(Live, ?n)], only_b)\<rparr>"
  let ?s5 = "\<lparr>caller = AtLoop [''b''], goroutine = Selecting, subscribed = True, cancelled = False,
              Events = [], Errors = [], listing = Some [''b''], st = ([(Live, ?n)], only_b)\<rparr>"
  let ?s6 = "\<lparr>caller = AtLoop [], goroutine = Selecting, subscribed = True, cancelled = False,
              Events = [], Errors = [], listing = Some [''b''],
              st = ([(Live, ?n), (Bootstrap, ?e)], only_b)\<rparr>"
  let ?step = "step quiet ''/g'' picky"
  have 1: "?step (init only_b) ?s1"
    using step.go_worker [where s = "init only_b" and fsn = quiet]
    by (simp add: init_def quiet_def)
  have 2: "?step ?s1 ?s2"
    using step.added [where s = ?s1 and fsn = quiet and graveyard = "''/g''"]
    by (simp add: quiet_def)
  have 3: "?step ?s2 ?s3"
    using step.notify [where s = ?s2 and event = ?n] by simp
  have 4: "?step ?s3 ?s4"
    using step.select_event [where s = ?s3 and graveyard = "''/g''" and eventHandler = picky
        and event = ?n and rest = "[]" and b = True and s' = "([(Live, ?n)], only_b)"]
    by (simp add: picky_b)
  have 5: "?step ?s4 ?s5"
    using step.read_dir [where s = ?s4 and graveyard = "''/g''" and files = "[''b'']"]
    by (simp add: only_b_listing)
  have 6: "?step ?s5 ?s6"
    using step.loop_handled [where s = ?s5 and graveyard = "''/g''" and eventHandler = picky
        and f = "''b''" and files = "[]" and s' = "([(Live, ?n), (Bootstrap, ?e)], only_b)"]
    by (simp add: only_b_event picky_b)
  have 7: "?step ?s6 raced"
    using step.loop_done [where s = ?s6] by (simp add: raced_def)
  have "reachable quiet ''/g'' picky only_b raced"
    unfolding reachable_def using 1 2 3 4 5 6 7
    by (meson rtranclp.rtrancl_into_rtrancl rtranclp.rtrancl_refl)
  then show ?thesis by (simp add: raced_def only_b_event)
qed

subsubsection \<open>C5: one event per existing file\<close>

lemma ReadDir_listing:
  assumes "ioutil_ReadDir g w = Inr files"
  shows "files = sort (entries w (filepath_Clean g)) \<and> distinct files \<and>
         set files = set (entries w (filepath_Clean g))"
proof -
  have "files = sort (entries w (filepath_Clean g))"
    using assms by (auto simp: ioutil_ReadDir_def Let_def split: if_splits option.splits node.splits)
  moreover have "distinct (entries w (filepath_Clean g))"
    by (simp add: entries_def)
  ultimately show ?thesis by simp
qed

lemma bootstrap_None_state:
  "bootstrap h g files s = (None, s') \<Longrightarrow>
   s' = foldl (\<lambda>s f. snd (invoke h Bootstrap (bootstrap_event g f) s)) s files"
proof (induction files arbitrary: s)
  case Nil
  then show ?case by simp
next
  case (Cons f files)
  obtain q s1 where i: "invoke h Bootstrap (bootstrap_event g f) s = (q, s1)"
    by (cases "invoke h Bootstrap (bootstrap_event g f) s")
  with Cons.prems have "q = None" and "bootstrap h g files s1 = (None, s')"
    by (auto split: option.splits)
  from Cons.IH [OF this(2)] i show ?case by simp
qed

lemma bootstrap_None_each:
  assumes "bootstrap h g files s = (None, s')" and "files = pre @ f # post"
  shows "fst (invoke h Bootstrap (bootstrap_event g f)
               (foldl (\<lambda>s f. snd (invoke h Bootstrap (bootstrap_event g f) s)) s pre)) = None"
proof -
  obtain r1 s1 where p: "bootstrap h g pre s = (r1, s1)" by (cases "bootstrap h g pre s")
  have "r1 = None" and rest: "bootstrap h g (f # post) s1 = (None, s')"
    using assms p by (auto simp: bootstrap_append split: option.splits)
  then have s1: "s1 = foldl (\<lambda>s f. snd (invoke h Bootstrap (bootstrap_event g f) s)) s pre"
    using p bootstrap_None_state by blast
  obtain q s2 where i: "invoke h Bootstrap (bootstrap_event g f) s1 = (q, s2)"
    by (cases "invoke h Bootstrap (bootstrap_event g f) s1")
  with rest have "q = None" by (auto split: option.splits)
  with i s1 show ?thesis by simp
qed

lemma bootstrap_Some_first:
  "bootstrap h g files s = (Some e, s') \<Longrightarrow>
   \<exists>pre f post err. files = pre @ f # post \<and>
     bootstrap h g pre s =
       (None, foldl (\<lambda>s f. snd (invoke h Bootstrap (bootstrap_event g f) s)) s pre) \<and>
     invoke h Bootstrap (bootstrap_event g f)
       (foldl (\<lambda>s f. snd (invoke h Bootstrap (bootstrap_event g f) s)) s pre) = (Some err, s') \<and>
     e = ''failed handling existing tombstone: '' @ err"
proof (induction files arbitrary: s)
  case Nil
  then show ?case by simp
next
  case (Cons f files)
  obtain q s1 where i: "invoke h Bootstrap (bootstrap_event g f) s = (q, s1)"
    by (cases "invoke h Bootstrap (bootstrap_event g f) s")
  show ?case
  proof (cases q)
    case (Some err)
    with Cons.prems i have "e = ''failed handling existing tombstone: '' @ err" "s' = s1"
      by auto
    with i Some have "f # files = [] @ f # files \<and>
      bootstrap h g [] s = (None, foldl (\<lambda>s f. snd (invoke h Bootstrap (bootstrap_event g f) s)) s []) \<and>
      invoke h Bootstrap (bootstrap_event g f)
        (foldl (\<lambda>s f. snd (invoke h Bootstrap (bootstrap_event g f) s)) s []) = (Some err, s') \<and>
      e = ''failed handling existing tombstone: '' @ err"
      by simp
    then show ?thesis by blast
  next
    case None
    with Cons.prems i have "bootstrap h g files s1 = (Some e, s')" by simp
    from Cons.IH [OF this] obtain pre f' post err where
      a: "files = pre @ f' # post"
      and b: "bootstrap h g pre s1 =
        (None, foldl (\<lambda>s f. snd (invoke h Bootstrap (bootstrap_event g f) s)) s1 pre)"
      and c: "invoke h Bootstrap (bootstrap_event g f')
        (foldl (\<lambda>s f. snd (invoke h Bootstrap (bootstrap_event g f) s)) s1 pre) = (Some err, s')"
      and d: "e = ''failed handling existing tombstone: '' @ err"
      by blast
    have "f # files = (f # pre) @ f' # post \<and>
      bootstrap h g (f # pre) s =
        (None, foldl (\<lambda>s f. snd (invoke h Bootstrap (bootstrap_event g f) s)) s (f # pre)) \<and>
      invoke h Bootstrap (bootstrap_event g f')
        (foldl (\<lambda>s f. snd (invoke h Bootstrap (bootstrap_event g f) s)) s (f # pre)) = (Some err, s') \<and>
      e = ''failed handling existing tombstone: '' @ err"
      using a b c d i None by simp
    then show ?thesis by blast
  qed
qed

text \<open>
  C5 (bootstrap completeness), as the code has it. When the watcher is made, the
  graveyard is added and the listing succeeds, the listing names every entry of the
  graveyard once. If \<open>Watch\<close> returns \<open>nil\<close>, the handler was called by the bootstrap with
  exactly one create event per listed file, in listing order, each carrying the graveyard
  joined with the file's name, and it returned \<open>nil\<close> on each. If \<open>Watch\<close> returns an
  error, there is a first listed file on which the handler failed: the handler returned
  \<open>nil\<close> on every file before it, the error of \<open>Watch\<close> is the handler's error on that
  file after the words \<open>failed handling existing tombstone\<close>, the state is the one that
  call left, and the handler was called for the files up to that one and for no other.
\<close>

theorem bootstrap_completeness:
  assumes "Watch fsn g h s = (r, s')"
    and "NewWatcher fsn = None" and "Add fsn g = None"
    and "ioutil_ReadDir g (snd s) = Inr files"
  shows "distinct files \<and> set files = set (entries (snd s) (filepath_Clean g)) \<and>
         (r = None \<longrightarrow>
            fst s' = fst s @
              map (\<lambda>f. (Bootstrap, \<lparr>Event_Name = filepath_Join g f, Op = fsnotify_Create\<rparr>)) files) \<and>
         (r \<noteq> None \<longrightarrow>
            (\<exists>k. 0 < k \<and> k \<le> length files \<and>
               fst s' = fst s @
                 map (\<lambda>f. (Bootstrap, \<lparr>Event_Name = filepath_Join g f, Op = fsnotify_Create\<rparr>))
                     (take k files))) \<and>
         (r = None \<longrightarrow>
            (\<forall>pre f post. files = pre @ f # post \<longrightarrow>
               fst (invoke h Bootstrap \<lparr>Event_Name = filepath_Join g f, Op = fsnotify_Create\<rparr>
                     (foldl (\<lambda>s f. snd (invoke h Bootstrap
                                \<lparr>Event_Name = filepath_Join g f, Op = fsnotify_Create\<rparr> s)) s pre))
                 = None)) \<and>
         (\<forall>e. r = Some e \<longrightarrow>
            (\<exists>pre f post err. files = pre @ f # post \<and>
               (\<forall>pre' f' post'. pre = pre' @ f' # post' \<longrightarrow>
                  fst (invoke h Bootstrap \<lparr>Event_Name = filepath_Join g f', Op = fsnotify_Create\<rparr>
                        (foldl (\<lambda>s f. snd (invoke h Bootstrap
                                   \<lparr>Event_Name = filepath_Join g f, Op = fsnotify_Create\<rparr> s)) s pre'))
                    = None) \<and>
               invoke h Bootstrap \<lparr>Event_Name = filepath_Join g f, Op = fsnotify_Create\<rparr>
                 (foldl (\<lambda>s f. snd (invoke h Bootstrap
                            \<lparr>Event_Name = filepath_Join g f, Op = fsnotify_Create\<rparr> s)) s pre)
                 = (Some err, s') \<and>
               e = ''failed handling existing tombstone: '' @ err \<and>
               fst s' = fst s @
                 map (\<lambda>f. (Bootstrap, \<lparr>Event_Name = filepath_Join g f, Op = fsnotify_Create\<rparr>))
                     (pre @ [f])))"
proof -
  have b: "bootstrap h g files s = (r, s')"
    using assms by (simp add: Watch_def)
  note c = bootstrap_calls [OF b]
  note l = ReadDir_listing [OF assms(4)]
  have n: "fst (invoke h Bootstrap (bootstrap_event g f)
               (foldl (\<lambda>s f. snd (invoke h Bootstrap (bootstrap_event g f) s)) s pre)) = None"
    if "r = None" and "files = pre @ f # post" for pre f post
    using bootstrap_None_each [of h g files s s' pre f post] b that by simp
  have e: "\<exists>pre f post err. files = pre @ f # post \<and>
       (\<forall>pre' f' post'. pre = pre' @ f' # post' \<longrightarrow>
          fst (invoke h Bootstrap (bootstrap_event g f')
                (foldl (\<lambda>s f. snd (invoke h Bootstrap (bootstrap_event g f) s)) s pre')) = None) \<and>
       invoke h Bootstrap (bootstrap_event g f)
         (foldl (\<lambda>s f. snd (invoke h Bootstrap (bootstrap_event g f) s)) s pre) = (Some err, s') \<and>
       x = ''failed handling existing tombstone: '' @ err \<and>
       fst s' = fst s @ map (\<lambda>f. (Bootstrap, bootstrap_event g f)) (pre @ [f])"
    if "r = Some x" for x
  proof -
    from bootstrap_Some_first [of h g files s x s'] b that obtain pre f post err where
      a: "files = pre @ f # post"
      and p: "bootstrap h g pre s =
        (None, foldl (\<lambda>s f. snd (invoke h Bootstrap (bootstrap_event g f) s)) s pre)"
      and i: "invoke h Bootstrap (bootstrap_event g f)
        (foldl (\<lambda>s f. snd (invoke h Bootstrap (bootstrap_event g f) s)) s pre) = (Some err, s')"
      and d: "x = ''failed handling existing tombstone: '' @ err"
      by blast
    have each: "\<forall>pre' f' post'. pre = pre' @ f' # post' \<longrightarrow>
          fst (invoke h Bootstrap (bootstrap_event g f')
                (foldl (\<lambda>s f. snd (invoke h Bootstrap (bootstrap_event g f) s)) s pre')) = None"
      using bootstrap_None_each [OF p] by blast
    have "fst s' = fst s @ map (\<lambda>f. (Bootstrap, bootstrap_event g f)) (pre @ [f])"
      using bootstrap_calls [OF p] invoke_calls [OF i] by simp
    with a each i d show ?thesis by blast
  qed
  show ?thesis
    using c l n e unfolding bootstrap_event_def by blast
qed

theorem bootstrap_completeness_witness:
  "ioutil_ReadDir ''/g'' two_files = Inr [''a'', ''b''] \<and>
   fst (Watch quiet ''/g'' LoggingEventHandler ([], two_files)) = None \<and>
   fst (snd (Watch quiet ''/g'' LoggingEventHandler ([], two_files))) =
     [(Bootstrap, \<lparr>Event_Name = ''/g/a'', Op = fsnotify_Create\<rparr>),
      (Bootstrap, \<lparr>Event_Name = ''/g/b'', Op = fsnotify_Create\<rparr>)] \<and>
   fst (Watch quiet ''/g'' picky ([], two_files)) =
     Some ''failed handling existing tombstone: unreadable'' \<and>
   (\<exists>pre f post err. [''a'', ''b''] = pre @ f # post \<and>
      ''failed handling existing tombstone: unreadable'' =
        ''failed handling existing tombstone: '' @ err \<and>
      fst (snd (Watch quiet ''/g'' picky ([], two_files))) =
        map (\<lambda>f. (Bootstrap, \<lparr>Event_Name = filepath_Join ''/g'' f, Op = fsnotify_Create\<rparr>))
            (pre @ [f]))"
proof -
  let ?s = "([], two_files) :: wstate"
  have n: "fst (Watch quiet ''/g'' LoggingEventHandler ?s) = None" by code_simp
  then have w: "Watch quiet ''/g'' LoggingEventHandler ?s =
      (None, snd (Watch quiet ''/g'' LoggingEventHandler ?s))"
    by (metis prod.collapse)
  have m: "fst (Watch quiet ''/g'' picky ?s) = Some ''failed handling existing tombstone: unreadable''"
    by code_simp
  then have v: "Watch quiet ''/g'' picky ?s =
      (Some ''failed handling existing tombstone: unreadable'', snd (Watch quiet ''/g'' picky ?s))"
    by (metis prod.collapse)
  have q: "NewWatcher quiet = None" "Add quiet ''/g'' = None"
    by (simp_all add: quiet_def)
  have l: "ioutil_ReadDir ''/g'' (snd ?s) = Inr [''a'', ''b'']" by code_simp
  have j: "filepath_Join ''/g'' ''a'' = ''/g/a''" "filepath_Join ''/g'' ''b'' = ''/g/b''"
    by code_simp+
  have "fst (snd (Watch quiet ''/g'' LoggingEventHandler ?s)) =
      fst ?s @ map (\<lambda>f. (Bootstrap, \<lparr>Event_Name = filepath_Join ''/g'' f, Op = fsnotify_Create\<rparr>))
                   [''a'', ''b'']"
    using bootstrap_completeness [OF w q l] by blast
  then have ok: "fst (snd (Watch quiet ''/g'' LoggingEventHandler ?s)) =
     [(Bootstrap, \<lparr>Event_Name = ''/g/a'', Op = fsnotify_Create\<rparr>),
      (Bootstrap, \<lparr>Event_Name = ''/g/b'', Op = fsnotify_Create\<rparr>)]"
    by (simp add: j)
  have "\<exists>pre f post err. [''a'', ''b''] = pre @ f # post \<and>
      ''failed handling existing tombstone: unreadable'' =
        ''failed handling existing tombstone: '' @ err \<and>
      fst (snd (Watch quiet ''/g'' picky ?s)) =
        fst ?s @ map (\<lambda>f. (Bootstrap, \<lparr>Event_Name = filepath_Join ''/g'' f, Op = fsnotify_Create\<rparr>))
            (pre @ [f])"
    using bootstrap_completeness [OF v q l, THEN conjunct2, THEN conjunct2, THEN conjunct2,
        THEN conjunct2, THEN conjunct2, rule_format, of "''failed handling existing tombstone: unreadable''"]
    by blast
  then have bad: "\<exists>pre f post err. [''a'', ''b''] = pre @ f # post \<and>
      ''failed handling existing tombstone: unreadable'' =
        ''failed handling existing tombstone: '' @ err \<and>
      fst (snd (Watch quiet ''/g'' picky ?s)) =
        map (\<lambda>f. (Bootstrap, \<lparr>Event_Name = filepath_Join ''/g'' f, Op = fsnotify_Create\<rparr>))
            (pre @ [f])"
    by simp
  from n l ok m bad show ?thesis by simp
qed

text \<open>
  C5 as claimed fails when the handler fails: the graveyard holds \<open>a\<close> and \<open>b\<close>, the handler
  fails on \<open>a\<close>, and no event for \<open>b\<close> is ever delivered.
\<close>

theorem bootstrap_stops_at_failure:
  "ioutil_ReadDir ''/g'' two_files = Inr [''a'', ''b''] \<and>
   fst (snd (Watch quiet ''/g'' picky ([], two_files))) =
     [(Bootstrap, \<lparr>Event_Name = ''/g/a'', Op = fsnotify_Create\<rparr>)]"
  by code_simp

subsubsection \<open>C6: birth, then death\<close>

lemma free_log_Printf [simp]: "free (log_Printf l w) = free w"
  by (simp add: log_Printf_def)

lemma RecordBirth_ok:
  assumes "RecordBirth now t w = (None, t1, w1)"
  shows "t1 = t\<lparr>Born := Some now\<rparr> \<and>
         Write t1 (log_Printf (''Creating tombstone: '' @ Path t1 @ [CHR 0x0A]) w) = (None, w1)"
  using assms by (auto simp: RecordBirth_def Let_def split: prod.splits option.splits)

lemma RecordDeath_ok:
  assumes "RecordDeath now c t w = (None, t1, w1)"
  shows "t1 = t\<lparr>Died := Some now, ExitCode := Some c\<rparr> \<and>
         Write t1 (log_Printf (''Updating tombstone: '' @ Path t1 @ [CHR 0x0A]) w) = (None, w1)"
  using assms by (auto simp: RecordDeath_def Let_def split: prod.splits option.splits)

text \<open>
  What holds of birth and death. On a fresh record, when \<open>RecordBirth\<close> returns \<open>nil\<close> and the disk
  took the payload, \<open>Read\<close> shows \<open>Born\<close> set to the time of the call and \<open>Died\<close> and
  \<open>ExitCode\<close> unset; when \<open>RecordDeath\<close> with exit code 0 then returns \<open>nil\<close>, \<open>Read\<close> shows all
  three set, \<open>ExitCode\<close> being 0. \<open>RecordDeath\<close> looks at no field of the record: on every
  record it sets \<open>Died\<close> and \<open>ExitCode\<close>, and it succeeds exactly when \<open>Write\<close> of the changed
  record does, whether or not \<open>Born\<close> is set.
\<close>

lemma birth_then_death:
  assumes fresh: "Born t = None" "Died t = None" "ExitCode t = None"
    and now: "valid_Time now1" "valid_Time now2"
    and birth: "RecordBirth now1 t w = (None, t1, w1)"
    and room1: "yaml_Marshal t1 = Inr p1" "length p1 \<le> free w"
    and death: "RecordDeath now2 0 t1 w1 = (None, t2, w2)"
    and room2: "yaml_Marshal t2 = Inr p2" "length p2 \<le> free w1"
  shows "Read (Graveyard t) (Name t) w1 = Inr t1 \<and>
         Born t1 = Some now1 \<and> Died t1 = None \<and> ExitCode t1 = None \<and>
         Read (Graveyard t) (Name t) w2 = Inr t2 \<and>
         Born t2 = Some now1 \<and> Died t2 = Some now2 \<and> ExitCode t2 = Some 0 \<and>
         (\<forall>now c t0 w0. fst (snd (RecordDeath now c t0 w0)) = t0\<lparr>Died := Some now, ExitCode := Some c\<rparr> \<and>
            (fst (RecordDeath now c t0 w0) = None \<longleftrightarrow>
             fst (Write (t0\<lparr>Died := Some now, ExitCode := Some c\<rparr>)
                   (log_Printf (''Updating tombstone: '' @ Path t0 @ [CHR 0x0A]) w0)) = None))"
proof -
  note b = RecordBirth_ok [OF birth]
  note d = RecordDeath_ok [OF death]
  have t1: "Born t1 = Some now1" "Died t1 = None" "ExitCode t1 = None"
    "Graveyard t1 = Graveyard t" "Name t1 = Name t"
    using b fresh by simp_all
  have t2: "Born t2 = Some now1" "Died t2 = Some now2" "ExitCode t2 = Some 0"
    "Graveyard t2 = Graveyard t" "Name t2 = Name t"
    using d t1 by simp_all
  have r1: "Read (Graveyard t1) (Name t1) w1 = Inr t1"
    using b room1 t1 now by (intro Write_Read [where pretty = p1 and w = "log_Printf _ w"]) auto
  have r2: "Read (Graveyard t2) (Name t2) w2 = Inr t2"
    using d room2 t2 now by (intro Write_Read [where pretty = p2 and w = "log_Printf _ w1"]) auto
  have nocheck: "fst (snd (RecordDeath now c t0 w0)) = t0\<lparr>Died := Some now, ExitCode := Some c\<rparr> \<and>
            (fst (RecordDeath now c t0 w0) = None \<longleftrightarrow>
             fst (Write (t0\<lparr>Died := Some now, ExitCode := Some c\<rparr>)
                   (log_Printf (''Updating tombstone: '' @ Path t0 @ [CHR 0x0A]) w0)) = None)"
    for now c t0 w0
    by (auto simp: RecordDeath_def Let_def Path_def split: prod.splits option.splits)
  show ?thesis using r1 r2 t1 t2 nocheck by simp
qed

lemma birth_then_death_example:
  "fst (RecordBirth morning app disk) = None \<and>
   Read ''/g'' ''app'' (snd (snd (RecordBirth morning app disk))) = Inr (app\<lparr>Born := Some morning\<rparr>) \<and>
   fst (RecordDeath evening 0 (app\<lparr>Born := Some morning\<rparr>) (snd (snd (RecordBirth morning app disk))))
     = None \<and>
   Read ''/g'' ''app''
     (snd (snd (RecordDeath evening 0 (app\<lparr>Born := Some morning\<rparr>)
                  (snd (snd (RecordBirth morning app disk))))))
     = Inr (app\<lparr>Born := Some morning, Died := Some evening, ExitCode := Some 0\<rparr>) \<and>
   fst (RecordDeath evening 0 app disk) = None \<and>
   fst (snd (RecordDeath evening 0 app disk)) = app\<lparr>Died := Some evening, ExitCode := Some 0\<rparr>"
proof -
  let ?t1 = "app\<lparr>Born := Some morning\<rparr>"
  let ?w1 = "snd (snd (RecordBirth morning app disk))"
  let ?t2 = "app\<lparr>Born := Some morning, Died := Some evening, ExitCode := Some 0\<rparr>"
  let ?w2 = "snd (snd (RecordDeath evening 0 ?t1 ?w1))"
  let ?p1 = "''Born: '' @ CHR 0x22 # ''2020-04-04T20:15:27.4353759-07:00'' @ [CHR 0x22, CHR 0x0A]"
  let ?p2 = "''Born: '' @ CHR 0x22 # ''2020-04-04T20:15:27.4353759-07:00'' @ [CHR 0x22, CHR 0x0A] @
             ''Died: '' @ CHR 0x22 # ''2020-04-04T23:59:59Z'' @ [CHR 0x22, CHR 0x0A] @
             ''ExitCode: 0'' @ [CHR 0x0A]"
  have fresh: "Born app = None" "Died app = None" "ExitCode app = None"
    by (simp_all add: app_def)
  have now: "valid_Time morning" "valid_Time evening"
    by (simp_all add: valid_Time_def morning_def evening_def daysIn_def)
  have fb: "fst (RecordBirth morning app disk) = None \<and> fst (snd (RecordBirth morning app disk)) = ?t1"
    by code_simp
  then have birth: "RecordBirth morning app disk = (None, ?t1, ?w1)"
    by (metis prod.collapse)
  have room1: "yaml_Marshal ?t1 = Inr ?p1" "length ?p1 \<le> free disk"
    by code_simp (simp add: disk_def)
  have fd: "fst (RecordDeath evening 0 ?t1 ?w1) = None \<and> fst (snd (RecordDeath evening 0 ?t1 ?w1)) = ?t2"
    by code_simp
  then have death: "RecordDeath evening 0 ?t1 ?w1 = (None, ?t2, ?w2)"
    by (metis prod.collapse)
  have room2: "yaml_Marshal ?t2 = Inr ?p2" "length ?p2 \<le> free ?w1"
    by code_simp+
  have lone: "fst (RecordDeath evening 0 app disk) = None" by code_simp
  have g: "Graveyard app = ''/g''" "Name app = ''app''" by (simp_all add: app_def)
  from birth_then_death [OF fresh now birth room1 death room2]
  have "Read ''/g'' ''app'' ?w1 = Inr ?t1" "Read ''/g'' ''app'' ?w2 = Inr ?t2"
    "fst (snd (RecordDeath evening 0 app disk)) = app\<lparr>Died := Some evening, ExitCode := Some 0\<rparr>"
    unfolding g by blast+
  with fb fd lone show ?thesis by blast
qed

text \<open>
  C6 (birth, then death). The claim asks that after \<open>RecordBirth\<close> a \<open>Read\<close> shows \<open>Born\<close>
  set, and after \<open>RecordDeath\<close> with exit code 0 all three fields. On a full disk both
  return \<open>nil\<close>, because \<open>Write\<close> drops the error of \<open>file.Write\<close>, and \<open>Read\<close> shows
  every field unset after the one and after the other.
\<close>

theorem birth_then_death_full_disk:
  "fst (RecordBirth morning app full) = None \<and>
   Read ''/g'' ''app'' (snd (snd (RecordBirth morning app full))) =
     Inr \<lparr>Born = None, Died = None, ExitCode = None, Graveyard = ''/g'', Name = ''app''\<rparr> \<and>
   fst (RecordDeath evening 0 (fst (snd (RecordBirth morning app full)))
          (snd (snd (RecordBirth morning app full)))) = None \<and>
   Read ''/g'' ''app''
     (snd (snd (RecordDeath evening 0 (fst (snd (RecordBirth morning app full)))
                  (snd (snd (RecordBirth morning app full)))))) =
     Inr \<lparr>Born = None, Died = None, ExitCode = None, Graveyard = ''/g'', Name = ''app''\<rparr>"
  by code_simp

subsubsection \<open>C7: reading what is not there\<close>

lemma ReadFile_absent:
  assumes "\<forall>c. lookup w (filepath_Clean p) \<noteq> Some (Regular c)"
  shows "\<exists>err. ioutil_ReadFile p w = Inl err"
  using assms by (auto simp: ioutil_ReadFile_def Let_def split: option.splits node.splits)

text \<open>
  C7 (absence is an error). When no regular file stands at the path, \<open>Read\<close> returns an
  error, so never a record, and the message starts with \<open>failed to read tombstone file\<close>.
  Every error of \<open>Read\<close> is of one of two kinds, told apart by their first words: the file
  could not be read, or it was read and its content could not be unmarshalled.
\<close>

theorem Read_absent_fails:
  "((\<forall>c. lookup w (filepath_Clean (filepath_Join graveyard name)) \<noteq> Some (Regular c)) \<longrightarrow>
      (\<exists>err. Read graveyard name w = Inl (''failed to read tombstone file: '' @ err))) \<and>
   (\<forall>e. Read graveyard name w = Inl e \<longrightarrow>
      (case ioutil_ReadFile (filepath_Join graveyard name) w of
         Inl err \<Rightarrow> e = ''failed to read tombstone file: '' @ err
       | Inr bytes \<Rightarrow> \<exists>err. e = ''failed to unmarshal tombstone yaml: '' @ err)) \<and>
   (\<forall>err err'. ''failed to read tombstone file: '' @ err \<noteq>
                ''failed to unmarshal tombstone yaml: '' @ err')"
proof (intro conjI impI allI)
  assume "\<forall>c. lookup w (filepath_Clean (filepath_Join graveyard name)) \<noteq> Some (Regular c)"
  from ReadFile_absent [OF this]
  show "\<exists>err. Read graveyard name w = Inl (''failed to read tombstone file: '' @ err)"
    by (auto simp: Read_def Path_def)
next
  fix e assume "Read graveyard name w = Inl e"
  then show "case ioutil_ReadFile (filepath_Join graveyard name) w of
         Inl err \<Rightarrow> e = ''failed to read tombstone file: '' @ err
       | Inr bytes \<Rightarrow> \<exists>err. e = ''failed to unmarshal tombstone yaml: '' @ err"
    by (auto simp: Read_def Path_def split: sum.splits)
next
  fix err err' :: string
  show "''failed to read tombstone file: '' @ err \<noteq> ''failed to unmarshal tombstone yaml: '' @ err'"
    by simp
qed

theorem Read_absent_fails_witness:
  "(\<forall>c. lookup disk (filepath_Clean (filepath_Join ''/g'' ''app'')) \<noteq> Some (Regular c)) \<and>
   (\<exists>err. Read ''/g'' ''app'' disk = Inl (''failed to read tombstone file: '' @ err)) \<and>
   Read ''/g'' ''app'' disk =
     Inl ''failed to read tombstone file: open /g/app: no such file or directory'' \<and>
   Read ''/g'' ''app'' garbled =
     Inl ''failed to unmarshal tombstone yaml: error unmarshaling JSON: parsing time yesterday: cannot parse as RFC 3339''"
proof -
  have a: "\<forall>c. lookup disk (filepath_Clean (filepath_Join ''/g'' ''app'')) \<noteq> Some (Regular c)"
    by (simp add: lookup_def disk_def)
  have b: "Read ''/g'' ''app'' disk =
     Inl ''failed to read tombstone file: open /g/app: no such file or directory''"
    by code_simp
  have c: "Read ''/g'' ''app'' garbled =
     Inl ''failed to unmarshal tombstone yaml: error unmarshaling JSON: parsing time yesterday: cannot parse as RFC 3339''"
    by code_simp
  from Read_absent_fails [of disk "''/g''" "''app''"] a
  have "\<exists>err. Read ''/g'' ''app'' disk = Inl (''failed to read tombstone file: '' @ err)"
    by blast
  with a b c show ?thesis by blast
qed

subsubsection \<open>C8: the payload\<close>

lemma Tombstone_members_fst:
  assumes "Tombstone_members t = Inr ms"
  shows "map fst ms =
     filter (\<lambda>k. (k = ''Born'' \<and> Born t \<noteq> None) \<or> (k = ''Died'' \<and> Died t \<noteq> None) \<or>
                 (k = ''ExitCode'' \<and> ExitCode t \<noteq> None)) [''Born'', ''Died'', ''ExitCode'']"
  using assms
  by (cases "Born t"; cases "Died t"; cases "ExitCode t")
     (auto simp: Tombstone_members_def time_member_def int_member_def split: sum.splits)

lemma yaml_Marshal_place [simp]:
  "yaml_Marshal (t\<lparr>Graveyard := g, Name := n\<rparr>) = yaml_Marshal t"
  by (simp add: yaml_Marshal_def Tombstone_members_def split: sum.splits)

text \<open>
  C8 (what is written). When \<open>Write\<close> returns \<open>nil\<close>, the file holds the marshalled payload
  (as much of it as the disk took). The payload parses to a mapping whose keys are, in
  order, \<open>Born\<close>, \<open>Died\<close> and \<open>ExitCode\<close>, each present exactly when its field is set;
  no other key occurs, and the payload is the same whatever \<open>Graveyard\<close> and \<open>Name\<close> are.
\<close>

theorem Write_payload_keys:
  assumes "Write t w = (None, w')"
  shows "\<exists>pretty ms.
           yaml_Marshal t = Inr pretty \<and>
           ioutil_ReadFile (Path t) w' = Inr (take (free w) pretty) \<and>
           yaml_parse pretty = Inr ms \<and>
           map fst ms =
             filter (\<lambda>k. (k = ''Born'' \<and> Born t \<noteq> None) \<or> (k = ''Died'' \<and> Died t \<noteq> None) \<or>
                         (k = ''ExitCode'' \<and> ExitCode t \<noteq> None)) [''Born'', ''Died'', ''ExitCode''] \<and>
           (\<forall>g n. yaml_Marshal (t\<lparr>Graveyard := g, Name := n\<rparr>) = Inr pretty)"
proof -
  obtain pretty where p: "yaml_Marshal t = Inr pretty"
    and r: "ioutil_ReadFile (Path t) w' = Inr (take (free w) pretty)"
    using Write_content [OF assms] by blast
  obtain ms where ms: "Tombstone_members t = Inr ms" and pr: "pretty = yaml_render ms"
    using p by (auto simp: yaml_Marshal_def split: sum.splits)
  have "yaml_parse pretty = Inr ms"
    unfolding pr by (rule yaml_parse_Tombstone [OF ms])
  with p r Tombstone_members_fst [OF ms] show ?thesis by auto
qed

theorem Write_payload_keys_witness:
  "fst (Write (app\<lparr>Born := Some morning\<rparr>) disk) = None \<and>
   ioutil_ReadFile ''/g/app'' (snd (Write (app\<lparr>Born := Some morning\<rparr>) disk)) =
     Inr (''Born: '' @ CHR 0x22 # ''2020-04-04T20:15:27.4353759-07:00'' @ [CHR 0x22, CHR 0x0A]) \<and>
   (\<exists>ms. yaml_parse (''Born: '' @ CHR 0x22 # ''2020-04-04T20:15:27.4353759-07:00'' @ [CHR 0x22, CHR 0x0A])
            = Inr ms \<and> map fst ms = [''Born''])"
proof -
  let ?t = "app\<lparr>Born := Some morning\<rparr>"
  let ?p = "''Born: '' @ CHR 0x22 # ''2020-04-04T20:15:27.4353759-07:00'' @ [CHR 0x22, CHR 0x0A]"
  have f: "fst (Write ?t disk) = None" by code_simp
  then have h: "Write ?t disk = (None, snd (Write ?t disk))"
    by (metis prod.collapse)
  have m: "yaml_Marshal ?t = Inr ?p" by code_simp
  have pa: "Path ?t = ''/g/app''" by code_simp
  have fr: "take (free disk) ?p = ?p" by (simp add: disk_def)
  have fl: "Born ?t \<noteq> None" "Died ?t = None" "ExitCode ?t = None" by (simp_all add: app_def)
  from Write_payload_keys [OF h] obtain ms where
    "ioutil_ReadFile (Path ?t) (snd (Write ?t disk)) = Inr (take (free disk) ?p)"
    "yaml_parse ?p = Inr ms"
    "map fst ms = filter (\<lambda>k. (k = ''Born'' \<and> Born ?t \<noteq> None) \<or> (k = ''Died'' \<and> Died ?t \<noteq> None) \<or>
                         (k = ''ExitCode'' \<and> ExitCode ?t \<noteq> None)) [''Born'', ''Died'', ''ExitCode'']"
    unfolding m by auto
  then show ?thesis using f unfolding pa fr fl by auto
qed

subsubsection \<open>C9: String\<close>

lemma join_with_chars: "c \<in> set (join_with sep xs) \<Longrightarrow> c \<in> set sep \<or> (\<exists>x \<in> set xs. c \<in> set x)"
  by (induction sep xs rule: join_with.induct) auto

lemma json_Marshal_shape:
  assumes "json_Marshal t = Inr inline"
  shows "CHR 0x0A \<notin> set inline \<and> hd inline = CHR ''{'' \<and> last inline = CHR ''}''"
proof -
  obtain ms where ms: "Tombstone_members t = Inr ms"
    and i: "inline = CHR ''{'' # join_with '','' (map json_member_text ms) @ ''}''"
    using assms by (auto simp: json_Marshal_def split: sum.splits)
  have "CHR 0x0A \<notin> set (json_member_text m)" if "m \<in> set ms" for m
    using Tombstone_members_keys [OF ms] that by (auto simp: json_member_text_def)
  then have "CHR 0x0A \<notin> set (join_with '','' (map json_member_text ms))"
    using join_with_chars [of "CHR 0x0A" "'',''" "map json_member_text ms"] by auto
  then show ?thesis by (simp add: i)
qed

lemma time_member_fails:
  "(\<exists>e. time_member key v = Inl e) \<longleftrightarrow> (\<exists>tm. v = Some tm \<and> (Year tm < 0 \<or> 10000 \<le> Year tm))"
  by (cases v) (auto simp: time_member_def Time_MarshalText_def)

lemma json_Marshal_fails:
  "(\<exists>e. json_Marshal t = Inl e) \<longleftrightarrow>
   (\<exists>tm. (Born t = Some tm \<or> Died t = Some tm) \<and> (Year tm < 0 \<or> 10000 \<le> Year tm))"
proof -
  have "(\<exists>e. json_Marshal t = Inl e) \<longleftrightarrow>
        (\<exists>e. time_member ''Born'' (Born t) = Inl e) \<or> (\<exists>e. time_member ''Died'' (Died t) = Inl e)"
    by (auto simp: json_Marshal_def Tombstone_members_def split: sum.splits)
  then show ?thesis unfolding time_member_fails by blast
qed

text \<open>
  C9 (\<open>String\<close> never fails its caller). For every record \<open>String\<close> returns a string and
  leaves the file system alone. When \<open>json.Marshal\<close> fails, which it does exactly when a set
  time has a year outside 0 to 9999, the string is the placeholder \<open>{}\<close> and the error is
  only logged; otherwise the string is the JSON object on one line, and nothing is logged.
\<close>

theorem String_never_fails:
  "(case json_Marshal t of
      Inl err \<Rightarrow>
        String t w = (''{}'', log_Printf (''Error: failed to marshal tombstone as json: '' @ err @ [CHR 0x0A]) w)
    | Inr inline \<Rightarrow>
        String t w = (inline, w) \<and> CHR 0x0A \<notin> set inline \<and>
        hd inline = CHR ''{'' \<and> last inline = CHR ''}'') \<and>
   nodes (snd (String t w)) = nodes w \<and> free (snd (String t w)) = free w \<and>
   ((\<exists>err. json_Marshal t = Inl err) \<longleftrightarrow>
    (\<exists>tm. (Born t = Some tm \<or> Died t = Some tm) \<and> (Year tm < 0 \<or> 10000 \<le> Year tm)))"
proof -
  have "nodes (snd (String t w)) = nodes w \<and> free (snd (String t w)) = free w"
    by (simp add: String_def log_Printf_def split: sum.splits)
  moreover have "case json_Marshal t of
      Inl err \<Rightarrow>
        String t w = (''{}'', log_Printf (''Error: failed to marshal tombstone as json: '' @ err @ [CHR 0x0A]) w)
    | Inr inline \<Rightarrow>
        String t w = (inline, w) \<and> CHR 0x0A \<notin> set inline \<and>
        hd inline = CHR ''{'' \<and> last inline = CHR ''}''"
    using json_Marshal_shape [of t] by (simp add: String_def split: sum.splits)
  ultimately show ?thesis using json_Marshal_fails [of t] by blast
qed

theorem String_never_fails_witness:
  "String (app\<lparr>Born := Some morning, Died := Some evening, ExitCode := Some 0\<rparr>) disk =
     (''{'' @ CHR 0x22 # ''Born'' @ CHR 0x22 # '':'' @ CHR 0x22 # ''2020-04-04T20:15:27.4353759-07:00'' @
      CHR 0x22 # '','' @ CHR 0x22 # ''Died'' @ CHR 0x22 # '':'' @ CHR 0x22 # ''2020-04-04T23:59:59Z'' @
      CHR 0x22 # '','' @ CHR 0x22 # ''ExitCode'' @ CHR 0x22 # '':0}'', disk) \<and>
   fst (String (app\<lparr>Died := Some far_future\<rparr>) disk) = ''{}'' \<and>
   logged (snd (String (app\<lparr>Died := Some far_future\<rparr>) disk)) =
     [''Error: failed to marshal tombstone as json: json: error calling MarshalJSON for type *time.Time: Time.MarshalJSON: year outside of range [0,9999]'' @ [CHR 0x0A]] \<and>
   nodes (snd (String (app\<lparr>Died := Some far_future\<rparr>) disk)) = nodes disk"
proof -
  let ?ok = "app\<lparr>Born := Some morning, Died := Some evening, ExitCode := Some 0\<rparr>"
  let ?bad = "app\<lparr>Died := Some far_future\<rparr>"
  have j1: "json_Marshal ?ok =
     Inr (''{'' @ CHR 0x22 # ''Born'' @ CHR 0x22 # '':'' @ CHR 0x22 # ''2020-04-04T20:15:27.4353759-07:00'' @
      CHR 0x22 # '','' @ CHR 0x22 # ''Died'' @ CHR 0x22 # '':'' @ CHR 0x22 # ''2020-04-04T23:59:59Z'' @
      CHR 0x22 # '','' @ CHR 0x22 # ''ExitCode'' @ CHR 0x22 # '':0}'')"
    by code_simp
  have j2: "json_Marshal ?bad = Inl ''json: error calling MarshalJSON for type *time.Time: Time.MarshalJSON: year outside of range [0,9999]''"
    by code_simp
  have l: "logged disk = []" by (simp add: disk_def)
  from String_never_fails [of ?ok disk] String_never_fails [of ?bad disk] show ?thesis
    unfolding j1 j2 by (simp add: log_Printf_def l)
qed

subsubsection \<open>C10: the record after a failed Write\<close>

text \<open>
  C10 (the record is changed before it is persisted). Whenever \<open>RecordBirth\<close> returns an
  error, the record it leaves behind has \<open>Born\<close> set to the time of the call, and whenever
  \<open>RecordDeath\<close> returns an error, the record has \<open>Died\<close> and \<open>ExitCode\<close> set: a failed
  \<open>Write\<close> does not undo the change.
\<close>

theorem Record_mutates_before_Write:
  "(\<forall>e t' w'. RecordBirth now t w = (Some e, t', w') \<longrightarrow> t' = t\<lparr>Born := Some now\<rparr>) \<and>
   (\<forall>e t' w'. RecordDeath now exitCode t w = (Some e, t', w') \<longrightarrow>
      t' = t\<lparr>Died := Some now, ExitCode := Some exitCode\<rparr>)"
  by (auto simp: RecordBirth_def RecordDeath_def Let_def split: prod.splits option.splits)

theorem Record_mutates_before_Write_witness:
  "fst (RecordBirth morning app blocked) =
     Some ''failed to create tombstone: mkdir /g: not a directory'' \<and>
   fst (snd (RecordBirth morning app blocked)) = app\<lparr>Born := Some morning\<rparr> \<and>
   fst (RecordDeath morning 1 app blocked) =
     Some ''failed to update tombstone: mkdir /g: not a directory'' \<and>
   fst (snd (RecordDeath morning 1 app blocked)) = app\<lparr>Died := Some morning, ExitCode := Some 1\<rparr>"
proof -
  have b: "fst (RecordBirth morning app blocked) =
      Some ''failed to create tombstone: mkdir /g: not a directory''"
    by code_simp
  have d: "fst (RecordDeath morning 1 app blocked) =
      Some ''failed to update tombstone: mkdir /g: not a directory''"
    by code_simp
  from b have "fst (snd (RecordBirth morning app blocked)) = app\<lparr>Born := Some morning\<rparr>"
    using Record_mutates_before_Write [of morning app blocked 1]
    by (metis prod.collapse)
  moreover from d have "fst (snd (RecordDeath morning 1 app blocked)) =
      app\<lparr>Died := Some morning, ExitCode := Some 1\<rparr>"
    using Record_mutates_before_Write [of morning app blocked 1]
    by (metis prod.collapse)
  ultimately show ?thesis using b d by blast
qed

end
